theory Spec2Isabelle
  imports
    Main
    "HOL-Library.Word"
    "HOL-Library.Signed_Division"
    "HOL-Library.Multiset"
    "HOL-Library.AList"
begin

section \<open>Machine integers of the Go program\<close>

text \<open>
  \<^verbatim>\<open>time.Duration\<close> is an \<^verbatim>\<open>int64\<close> count of nanoseconds. Go's \<^verbatim>\<open>int\<close> and
  \<^verbatim>\<open>uint\<close> are taken at their 64-bit width (amd64, arm64). Addition and subtraction wrap
  around; comparisons read the word as two's complement (\<open><s\<close>, \<open>sint\<close>).
\<close>

type_synonym Duration = "64 word"
type_synonym go_int = "64 word"
type_synonym go_uint = "64 word"

text \<open>
  Go's \<^verbatim>\<open>/\<close> and \<^verbatim>\<open>%\<close> on signed integers truncate towards zero; the quotient of
  the most negative value by \<open>-1\<close> wraps around to the most negative value. A zero divisor
  is a run-time panic, which the callers below check before they divide.
\<close>

definition go_div :: "64 word \<Rightarrow> 64 word \<Rightarrow> 64 word" where
  "go_div a b = word_of_int (sint a sdiv sint b)"

definition go_rem :: "64 word \<Rightarrow> 64 word \<Rightarrow> 64 word" where
  "go_rem a b = word_of_int (sint a smod sint b)"

datatype error =
    NewRequestError
  | LimiterError
  | TransportError
  | MeasurementError
  | ReadError
  | HTTPStatusError string
  | DecodeError
  | RPCError
  | DivideByZero
  | IndexOutOfRange

section \<open>Data model\<close>

record RequestTimings =
  DNSLookup :: Duration
  TCPConnection :: Duration
  TLSHandshake :: Duration
  ServerProcessing :: Duration

text \<open>
  The request parameters: the account key and the fixed option map
  (\<^verbatim>\<open>encoding\<close>, \<^verbatim>\<open>commitment\<close>).
\<close>

type_synonym params = "string \<times> (string \<times> string) list"

record BenchmarkResult =
  URL :: string
  Method :: string
  MinTimings :: RequestTimings
  MaxTimings :: RequestTimings
  AverageTimings :: RequestTimings
  TotalTimings :: RequestTimings
  TotalTime :: Duration
  RequestsCount :: go_int
  Params :: params

record AggregateBenchmarkResult =
  URL :: string
  Method :: string
  TotalTime :: Duration
  RequestsCount :: go_int
  AggregateTimings :: RequestTimings
  MaxTimings :: RequestTimings
  MinTimings :: RequestTimings

text \<open>The zero value of \<^verbatim>\<open>RequestTimings\<close> (a declared, unassigned variable).\<close>

definition zero_timings :: RequestTimings where
  "zero_timings = \<lparr>DNSLookup = 0, TCPConnection = 0, TLSHandshake = 0, ServerProcessing = 0\<rparr>"

section \<open>performRequest\<close>

text \<open>
  The hooks of \<^verbatim>\<open>httptrace.ClientTrace\<close> that fire during \<^verbatim>\<open>client.Do\<close>. A hook that
  calls \<^verbatim>\<open>time.Since\<close> carries the duration the clock gave it; the hooks that only take
  a time stamp carry nothing.
\<close>

datatype trace_event =
    DNSStart
  | DNSDone Duration
  | ConnectStart
  | ConnectDone Duration
  | TLSHandshakeStart
  | TLSHandshakeDone Duration
  | GotFirstResponseByte Duration

record trace_vars =
  dnsDuration :: Duration
  connectDuration :: Duration
  tlsDuration :: Duration
  serverProcessing :: Duration

definition trace_init :: trace_vars where
  "trace_init = \<lparr>dnsDuration = 0, connectDuration = 0, tlsDuration = 0, serverProcessing = 0\<rparr>"

fun trace_hook :: "trace_vars \<Rightarrow> trace_event \<Rightarrow> trace_vars" where
  "trace_hook v DNSStart = v"
| "trace_hook v (DNSDone d) = v\<lparr>dnsDuration := d\<rparr>"
| "trace_hook v ConnectStart = v"
| "trace_hook v (ConnectDone d) = v\<lparr>connectDuration := d\<rparr>"
| "trace_hook v TLSHandshakeStart = v"
| "trace_hook v (TLSHandshakeDone d) = v\<lparr>tlsDuration := d\<rparr>"
| "trace_hook v (GotFirstResponseByte d) =
     v\<lparr>serverProcessing := d - connectDuration v - dnsDuration v - tlsDuration v\<rparr>"

definition run_trace :: "trace_event list \<Rightarrow> trace_vars" where
  "run_trace es = foldl trace_hook trace_init es"

text \<open>
  What the world does during one call of \<^verbatim>\<open>performRequest\<close>: which of the library calls
  fail, which hooks fire, the response status and the elapsed time read after the body.
\<close>

record http_call =
  newRequestErr :: bool
  waitErr :: bool
  trace :: "trace_event list"
  doErr :: bool
  readErr :: bool
  statusCode :: nat
  status :: string
  sinceStart :: Duration
  unmarshalErr :: bool
  rpcError :: bool

definition performRequest :: "http_call \<Rightarrow> Duration \<times> RequestTimings \<times> error option" where
  "performRequest c =
     (if newRequestErr c then (0, zero_timings, Some NewRequestError)
      else if waitErr c then (0, zero_timings, Some LimiterError)
      else
        let v = run_trace (trace c) in
        if doErr c then (0, zero_timings, Some TransportError)
        else if serverProcessing v <s 0 then (0, zero_timings, Some MeasurementError)
        else if readErr c then (0, zero_timings, Some ReadError)
        else if statusCode c \<noteq> 200 then (0, zero_timings, Some (HTTPStatusError (status c)))
        else if unmarshalErr c then (0, zero_timings, Some DecodeError)
        else if rpcError c then (0, zero_timings, Some RPCError)
        else
          (sinceStart c,
           \<lparr>DNSLookup = dnsDuration v,
            TCPConnection = connectDuration v,
            TLSHandshake = tlsDuration v,
            ServerProcessing = serverProcessing v\<rparr>,
           None))"

text \<open>A call in which everything succeeds, with the given hooks fired.\<close>

definition ok_call :: "trace_event list \<Rightarrow> Duration \<Rightarrow> http_call" where
  "ok_call es t =
     \<lparr>newRequestErr = False, waitErr = False, trace = es, doErr = False, readErr = False,
      statusCode = 200, status = ''200 OK'', sinceStart = t, unmarshalErr = False,
      rpcError = False\<rparr>"

section \<open>benchmarkMethod\<close>

definition minDuration :: "Duration \<Rightarrow> Duration \<Rightarrow> Duration" where
  "minDuration a b = (if a <s b then a else b)"

definition maxDuration :: "Duration \<Rightarrow> Duration \<Rightarrow> Duration" where
  "maxDuration a b = (if b <s a then a else b)"

text \<open>
  The header \<^verbatim>\<open>for i := 0; i < n; i++\<close> with a body that does not assign \<open>i\<close>: the values
  \<open>i\<close> takes, in order. The comparison is the signed one of Go's \<^verbatim>\<open>int\<close>.
\<close>

function loop_indices :: "go_int \<Rightarrow> go_int \<Rightarrow> go_int list" where
  "loop_indices i n = (if i <s n then i # loop_indices (i + 1) n else [])"
  by pat_completeness auto
termination
proof (relation "measure (\<lambda>(i, n). nat (sint n - sint i))")
  show "wf (measure (\<lambda>(i, n). nat (sint n - sint i)))" by simp
next
  fix i n :: go_int
  assume "i <s n"
  then have lt: "sint i < sint n" by (simp add: word_sless_alt)
  moreover have "sint n < 2 ^ 63" using sint_lt [of n] by simp
  moreover have "- (2 ^ 63) \<le> sint i" using sint_ge [of i] by simp
  ultimately have "sint (i + 1) = sint i + 1"
    by (simp add: sint_word_add signed_take_bit_int_eq_self)
  with lt show "((i + 1, n), (i, n)) \<in> measure (\<lambda>(i, n). nat (sint n - sint i))"
    by simp
qed

declare loop_indices.simps [simp del]

definition reqPerMethod :: go_int where
  "reqPerMethod = 1"

text \<open>The local variables of \<^verbatim>\<open>benchmarkMethod\<close> that the loop updates.\<close>

record bench_state =
  minTimings :: RequestTimings
  maxTimings :: RequestTimings
  totalTimings :: RequestTimings
  totalTime :: Duration
  performedRequests :: go_int

definition bench_init :: bench_state where
  "bench_init =
     \<lparr>minTimings = zero_timings, maxTimings = zero_timings, totalTimings = zero_timings,
      totalTime = 0, performedRequests = 0\<rparr>"

text \<open>One pass through the loop body: a failed call is logged and skipped.\<close>

definition attempt :: "bench_state \<Rightarrow> http_call \<Rightarrow> bench_state" where
  "attempt s c =
     (case performRequest c of
        (requestTime, timings, Some err) \<Rightarrow> s
      | (requestTime, timings, None) \<Rightarrow>
          let s1 =
            (if performedRequests s = 0 then s\<lparr>minTimings := timings, maxTimings := timings\<rparr>
             else s\<lparr>minTimings :=
                      \<lparr>DNSLookup = minDuration (DNSLookup (minTimings s)) (DNSLookup timings),
                       TCPConnection =
                         minDuration (TCPConnection (minTimings s)) (TCPConnection timings),
                       TLSHandshake =
                         minDuration (TLSHandshake (minTimings s)) (TLSHandshake timings),
                       ServerProcessing =
                         minDuration (ServerProcessing (minTimings s)) (ServerProcessing timings)\<rparr>,
                    maxTimings :=
                      \<lparr>DNSLookup = maxDuration (DNSLookup (maxTimings s)) (DNSLookup timings),
                       TCPConnection =
                         maxDuration (TCPConnection (maxTimings s)) (TCPConnection timings),
                       TLSHandshake =
                         maxDuration (TLSHandshake (maxTimings s)) (TLSHandshake timings),
                       ServerProcessing =
                         maxDuration (ServerProcessing (maxTimings s)) (ServerProcessing timings)\<rparr>\<rparr>)
          in s1\<lparr>totalTimings :=
                  \<lparr>DNSLookup = DNSLookup (totalTimings s) + DNSLookup timings,
                   TCPConnection = TCPConnection (totalTimings s) + TCPConnection timings,
                   TLSHandshake = TLSHandshake (totalTimings s) + TLSHandshake timings,
                   ServerProcessing = ServerProcessing (totalTimings s) + ServerProcessing timings\<rparr>,
                totalTime := totalTime s + requestTime,
                performedRequests := performedRequests s + 1\<rparr>)"

text \<open>
  The body of \<^verbatim>\<open>benchmarkMethod\<close> with the loop bound as an argument; \<open>calls i\<close> is what
  the world does during the call of \<^verbatim>\<open>performRequest\<close> in iteration \<open>i\<close>.
\<close>

definition benchmarkRepeat ::
  "go_int \<Rightarrow> string \<Rightarrow> string \<Rightarrow> params \<Rightarrow> (go_int \<Rightarrow> http_call) \<Rightarrow> BenchmarkResult" where
  "benchmarkRepeat R url method params calls =
     (let s = foldl attempt bench_init (map calls (loop_indices 0 R));
          avgTimings =
            (if 0 <s performedRequests s then
               \<lparr>DNSLookup = go_div (DNSLookup (totalTimings s)) (performedRequests s),
                TCPConnection = go_div (TCPConnection (totalTimings s)) (performedRequests s),
                TLSHandshake = go_div (TLSHandshake (totalTimings s)) (performedRequests s),
                ServerProcessing = go_div (ServerProcessing (totalTimings s)) (performedRequests s)\<rparr>
             else zero_timings)
      in \<lparr>BenchmarkResult.URL = url,
          Method = method,
          MinTimings = minTimings s,
          MaxTimings = maxTimings s,
          AverageTimings = avgTimings,
          TotalTimings = totalTimings s,
          TotalTime = totalTime s,
          RequestsCount = performedRequests s,
          Params = params\<rparr>)"

definition benchmarkMethod ::
  "string \<Rightarrow> string \<Rightarrow> params \<Rightarrow> (go_int \<Rightarrow> http_call) \<Rightarrow> BenchmarkResult" where
  "benchmarkMethod = benchmarkRepeat reqPerMethod"

text \<open>The calls of a run that returned without an error, and the four phases of a timing.\<close>

definition succeeded :: "http_call \<Rightarrow> bool" where
  "succeeded c = (snd (snd (performRequest c)) = None)"

definition timings_of :: "http_call \<Rightarrow> RequestTimings" where
  "timings_of c = fst (snd (performRequest c))"

definition phases :: "(RequestTimings \<Rightarrow> Duration) list" where
  "phases = [DNSLookup, TCPConnection, TLSHandshake, ServerProcessing]"

section \<open>StartTest: the scheduler\<close>

text \<open>
  The HTTP client and the rate limiters are objects on the heap; a reference is the
  position of the object. \<^verbatim>\<open>&http.Client{...}\<close> and \<^verbatim>\<open>rate.NewLimiter\<close> each
  allocate a new object.
\<close>

datatype object =
    HTTPClient bool
  | Limiter go_uint go_int

type_synonym ref = nat
type_synonym heap = "object list"

definition new_object :: "object \<Rightarrow> heap \<Rightarrow> ref \<times> heap" where
  "new_object ob h = (length h, h @ [ob])"

text \<open>
  What the world does for one goroutine: whether \<^verbatim>\<open>json.Marshal\<close> fails, and the calls
  of \<^verbatim>\<open>performRequest\<close>.
\<close>

record unit_env =
  marshalErr :: bool
  calls :: "go_int \<Rightarrow> http_call"

text \<open>
  What one goroutine did: the parameters it built, the client and the limiter it handed
  to \<^verbatim>\<open>benchmarkMethod\<close>, and what it sent on the channel \<^verbatim>\<open>results\<close>.
\<close>

record unit_run =
  run_params :: params
  run_client :: ref
  run_limiter :: "ref option"
  sent :: "BenchmarkResult list"

definition run_unit ::
  "ref \<Rightarrow> go_uint \<Rightarrow> string \<Rightarrow> string \<Rightarrow> string list \<Rightarrow> go_int \<Rightarrow> unit_env \<Rightarrow> heap \<Rightarrow>
   error + (unit_run \<times> heap)" where
  "run_unit client rateLimit GetAccountInfo url accountKeys accountIndex env h =
     (if sint accountIndex < 0 \<or> int (length accountKeys) \<le> sint accountIndex
      then Inl IndexOutOfRange
      else
        let k = accountKeys ! nat (sint accountIndex);
            params = (k, [(''encoding'', ''jsonParsed''), (''commitment'', ''finalized'')])
        in
          if marshalErr env
          then Inr (\<lparr>run_params = params, run_client = client, run_limiter = None, sent = []\<rparr>, h)
          else
            let (limiter, h') = new_object (Limiter rateLimit 1) h;
                resp = benchmarkMethod url GetAccountInfo params (calls env)
            in Inr (\<lparr>run_params = params, run_client = client, run_limiter = Some limiter,
                     sent = (if BenchmarkResult.RequestsCount resp \<noteq> 0 then [resp] else [])\<rparr>,
                    h'))"

text \<open>
  The loop that starts the goroutines. The package variables \<^verbatim>\<open>AccountKeys\<close> and
  \<^verbatim>\<open>GetAccountInfo\<close> are arguments. \<^verbatim>\<open>i % len(AccountKeys)\<close> panics on an empty
  list. The goroutines are run in the order in which they are started; they share
  nothing but the heap and the channel, and the order in which their results arrive is
  left open (see \<open>arrival_order\<close>).
\<close>

fun launch ::
  "ref \<Rightarrow> go_uint \<Rightarrow> string \<Rightarrow> string \<Rightarrow> string list \<Rightarrow> (go_int \<Rightarrow> unit_env) \<Rightarrow>
   go_int list \<Rightarrow> heap \<Rightarrow> error + (unit_run list \<times> heap)" where
  "launch client rateLimit GetAccountInfo providerURL AccountKeys envs [] h = Inr ([], h)"
| "launch client rateLimit GetAccountInfo providerURL AccountKeys envs (i # is) h =
     (if (word_of_nat (length AccountKeys) :: go_int) = 0 then Inl DivideByZero
      else
        let accountIndex = go_rem i (word_of_nat (length AccountKeys)) in
        case run_unit client rateLimit GetAccountInfo providerURL AccountKeys accountIndex
               (envs i) h of
          Inl e \<Rightarrow> Inl e
        | Inr (u, h') \<Rightarrow>
            (case launch client rateLimit GetAccountInfo providerURL AccountKeys envs is h' of
               Inl e \<Rightarrow> Inl e
             | Inr (us, h'') \<Rightarrow> Inr (u # us, h'')))"

definition StartTest_launch ::
  "string \<Rightarrow> go_uint \<Rightarrow> go_uint \<Rightarrow> string list \<Rightarrow> string \<Rightarrow> (go_int \<Rightarrow> unit_env) \<Rightarrow>
   error + (unit_run list \<times> heap)" where
  "StartTest_launch providerURL rateLimit totalRequests AccountKeys GetAccountInfo envs =
     (let (client, h) = new_object (HTTPClient False) []
      in launch client rateLimit GetAccountInfo providerURL AccountKeys envs
           (loop_indices 0 totalRequests) h)"

definition sent_results :: "unit_run list \<Rightarrow> BenchmarkResult list" where
  "sent_results us = concat (map sent us)"

text \<open>
  The channel is unbuffered and every goroutine sends at most once, so the results reach
  the receiving loop in some order of the results sent.
\<close>

definition arrival_order :: "unit_run list \<Rightarrow> BenchmarkResult list \<Rightarrow> bool" where
  "arrival_order us rs \<longleftrightarrow> mset rs = mset (sent_results us)"

section \<open>StartTest: the aggregator\<close>

text \<open>
  \<^verbatim>\<open>aggregateResults\<close> maps a key to a pointer to its aggregate. The model is a list of
  pairs with distinct keys, in the order in which the keys were first seen; Go leaves the
  order of \<^verbatim>\<open>range\<close> over a map open, and the model takes this one.
\<close>

type_synonym aggregates = "(string \<times> AggregateBenchmarkResult) list"

definition result_key :: "BenchmarkResult \<Rightarrow> string" where
  "result_key result = BenchmarkResult.URL result @ ''_'' @ BenchmarkResult.Method result"

text \<open>Lines 263 to 271: the aggregate made from the first result of a key.\<close>

definition seed_aggregate :: "BenchmarkResult \<Rightarrow> AggregateBenchmarkResult" where
  "seed_aggregate result =
     \<lparr>AggregateBenchmarkResult.URL = BenchmarkResult.URL result,
      Method = BenchmarkResult.Method result,
      TotalTime = BenchmarkResult.TotalTime result,
      RequestsCount = BenchmarkResult.RequestsCount result,
      AggregateTimings = TotalTimings result,
      MaxTimings = BenchmarkResult.MaxTimings result,
      MinTimings = BenchmarkResult.MinTimings result\<rparr>"

text \<open>Lines 273 to 288: a further result of a key, added to its aggregate.\<close>

definition merge_into :: "AggregateBenchmarkResult \<Rightarrow> BenchmarkResult \<Rightarrow> AggregateBenchmarkResult" where
  "merge_into aggregateResult result =
     aggregateResult
       \<lparr>TotalTime := TotalTime aggregateResult + BenchmarkResult.TotalTime result,
        RequestsCount := RequestsCount aggregateResult + BenchmarkResult.RequestsCount result,
        AggregateTimings :=
          \<lparr>DNSLookup =
             DNSLookup (AggregateTimings aggregateResult) + DNSLookup (TotalTimings result),
           TCPConnection =
             TCPConnection (AggregateTimings aggregateResult) + TCPConnection (TotalTimings result),
           TLSHandshake =
             TLSHandshake (AggregateTimings aggregateResult) + TLSHandshake (TotalTimings result),
           ServerProcessing =
             ServerProcessing (AggregateTimings aggregateResult) +
             ServerProcessing (TotalTimings result)\<rparr>,
        MinTimings :=
          \<lparr>DNSLookup =
             minDuration (DNSLookup (MinTimings aggregateResult))
               (DNSLookup (BenchmarkResult.MinTimings result)),
           TCPConnection =
             minDuration (TCPConnection (MinTimings aggregateResult))
               (TCPConnection (BenchmarkResult.MinTimings result)),
           TLSHandshake =
             minDuration (TLSHandshake (MinTimings aggregateResult))
               (TLSHandshake (BenchmarkResult.MinTimings result)),
           ServerProcessing =
             minDuration (ServerProcessing (MinTimings aggregateResult))
               (ServerProcessing (BenchmarkResult.MinTimings result))\<rparr>,
        MaxTimings :=
          \<lparr>DNSLookup =
             maxDuration (DNSLookup (MaxTimings aggregateResult))
               (DNSLookup (BenchmarkResult.MaxTimings result)),
           TCPConnection =
             maxDuration (TCPConnection (MaxTimings aggregateResult))
               (TCPConnection (BenchmarkResult.MaxTimings result)),
           TLSHandshake =
             maxDuration (TLSHandshake (MaxTimings aggregateResult))
               (TLSHandshake (BenchmarkResult.MaxTimings result)),
           ServerProcessing =
             maxDuration (ServerProcessing (MaxTimings aggregateResult))
               (ServerProcessing (BenchmarkResult.MaxTimings result))\<rparr>\<rparr>"

text \<open>The body of the loop over the channel.\<close>

definition merge_result :: "aggregates \<Rightarrow> BenchmarkResult \<Rightarrow> aggregates" where
  "merge_result aggregateResults result =
     (let key = result_key result in
      case map_of aggregateResults key of
        None \<Rightarrow> AList.update key (seed_aggregate result) aggregateResults
      | Some aggregateResult \<Rightarrow>
          AList.update key (merge_into aggregateResult result) aggregateResults)"

definition aggregate :: "BenchmarkResult list \<Rightarrow> aggregates" where
  "aggregate rs = foldl merge_result [] rs"

text \<open>
  The body of the last loop: the four divisions by \<^verbatim>\<open>RequestsCount\<close>. Go panics on a
  zero divisor.
\<close>

definition finalize_aggregate :: "AggregateBenchmarkResult \<Rightarrow> error + AggregateBenchmarkResult" where
  "finalize_aggregate aggregateResult =
     (if RequestsCount aggregateResult = 0 then Inl DivideByZero
      else Inr (aggregateResult
        \<lparr>AggregateTimings :=
           \<lparr>DNSLookup =
              go_div (DNSLookup (AggregateTimings aggregateResult)) (RequestsCount aggregateResult),
            TCPConnection =
              go_div (TCPConnection (AggregateTimings aggregateResult))
                (RequestsCount aggregateResult),
            TLSHandshake =
              go_div (TLSHandshake (AggregateTimings aggregateResult))
                (RequestsCount aggregateResult),
            ServerProcessing =
              go_div (ServerProcessing (AggregateTimings aggregateResult))
                (RequestsCount aggregateResult)\<rparr>\<rparr>))"

text \<open>The lines the main goroutine writes to the log.\<close>

datatype log_line =
    ResultLine BenchmarkResult
  | TotalLine AggregateBenchmarkResult

fun finalize_loop :: "aggregates \<Rightarrow> error + (aggregates \<times> log_line list)" where
  "finalize_loop [] = Inr ([], [])"
| "finalize_loop ((key, aggregateResult) # rest) =
     (case finalize_aggregate aggregateResult of
        Inl e \<Rightarrow> Inl e
      | Inr finalized \<Rightarrow>
          (case finalize_loop rest of
             Inl e \<Rightarrow> Inl e
           | Inr (rest', ls) \<Rightarrow> Inr ((key, finalized) # rest', TotalLine finalized # ls)))"

text \<open>
  The receiving loop followed by the last loop, on the results in the order in which they
  arrive: the log written and the aggregates at the end.
\<close>

definition StartTest_aggregate ::
  "BenchmarkResult list \<Rightarrow> error + (log_line list \<times> aggregates)" where
  "StartTest_aggregate rs =
     (case finalize_loop (aggregate rs) of
        Inl e \<Rightarrow> Inl e
      | Inr (final, totals) \<Rightarrow> Inr (map ResultLine rs @ totals, final))"

text \<open>The results of one key, in the order of arrival.\<close>

definition key_group :: "string \<Rightarrow> BenchmarkResult list \<Rightarrow> BenchmarkResult list" where
  "key_group k rs = filter (\<lambda>r. result_key r = k) rs"

text \<open>
  Three attempts for the examples: the first and the third succeed, the second fails in
  \<^verbatim>\<open>client.Do\<close>.
\<close>

definition example_calls :: "go_int \<Rightarrow> http_call" where
  "example_calls i =
     (if i = 0 then
        ok_call [DNSDone 1, ConnectDone 2, TLSHandshakeDone 3, GotFirstResponseByte 10] 12
      else if i = 1 then
        (ok_call [] 0)\<lparr>doErr := True\<rparr>
      else
        ok_call [DNSDone 3, ConnectDone 1, TLSHandshakeDone 5, GotFirstResponseByte 11] 13)"

text \<open>
  Goroutines for the examples: the call of goroutine 0 fails in \<^verbatim>\<open>client.Do\<close>, the
  calls of the others succeed.
\<close>

definition example_envs :: "go_int \<Rightarrow> unit_env" where
  "example_envs i =
     \<lparr>marshalErr = False,
      calls = (\<lambda>j. if i = 0 then (ok_call [] 0)\<lparr>doErr := True\<rparr>
                   else ok_call [ConnectDone 2, GotFirstResponseByte 7] 9)\<rparr>"

text \<open>
  Two results for the examples, with the same endpoint and method: that of the three
  attempts above, and that of goroutine 1.
\<close>

definition example_first :: BenchmarkResult where
  "example_first = benchmarkRepeat 3 ''u'' ''m'' (''k'', []) example_calls"

definition example_second :: BenchmarkResult where
  "example_second = benchmarkMethod ''u'' ''m'' (''k'', []) (calls (example_envs 1))"

text \<open>
  An aggregate without its endpoint and method, which are those of the first result of
  the key; and the step of the receiving loop seen from one key, on such aggregates.
\<close>

definition numeric_part :: "AggregateBenchmarkResult \<Rightarrow> AggregateBenchmarkResult" where
  "numeric_part a = a\<lparr>AggregateBenchmarkResult.URL := [], AggregateBenchmarkResult.Method := []\<rparr>"

definition absorb ::
  "string \<Rightarrow> BenchmarkResult \<Rightarrow> AggregateBenchmarkResult option \<Rightarrow>
   AggregateBenchmarkResult option" where
  "absorb k r s =
     (if result_key r \<noteq> k then s
      else Some (case s of None \<Rightarrow> numeric_part (seed_aggregate r) | Some a \<Rightarrow> merge_into a r))"

section \<open>Theorems about performRequest\<close>

text \<open>
  C2. Whenever the server-processing time computed by the trace hooks (time to first byte
  minus the connect, DNS and TLS durations) is negative, \<^verbatim>\<open>performRequest\<close> returns an
  error together with a zero elapsed time and zero timings; and every call that returns
  without an error reports a server-processing time that is not negative.
\<close>

theorem performRequest_negative_serverProcessing:
  "(serverProcessing (run_trace (trace c)) <s 0 \<longrightarrow>
      (\<exists>e. performRequest c = (0, zero_timings, Some e))) \<and>
   (\<forall>t tm. performRequest c = (t, tm, None) \<longrightarrow> 0 \<le> sint (ServerProcessing tm))"
proof (intro conjI allI impI)
  assume "serverProcessing (run_trace (trace c)) <s 0"
  then show "\<exists>e. performRequest c = (0, zero_timings, Some e)"
    by (simp add: performRequest_def Let_def)
next
  fix t tm
  assume ok: "performRequest c = (t, tm, None)"
  then have "\<not> serverProcessing (run_trace (trace c)) <s 0"
    by (auto simp: performRequest_def Let_def split: if_splits)
  moreover from ok have "ServerProcessing tm = serverProcessing (run_trace (trace c))"
    by (auto simp: performRequest_def Let_def split: if_splits)
  ultimately show "0 \<le> sint (ServerProcessing tm)"
    by (simp add: word_sless_alt)
qed

theorem performRequest_negative_serverProcessing_witness:
  "serverProcessing (run_trace (trace (ok_call [ConnectDone 5, GotFirstResponseByte 3] 9))) <s 0 \<and>
   (\<exists>e. performRequest (ok_call [ConnectDone 5, GotFirstResponseByte 3] 9) =
      (0, zero_timings, Some e)) \<and>
   performRequest (ok_call [ConnectDone 2, GotFirstResponseByte 7] 9) =
      (9, \<lparr>DNSLookup = 0, TCPConnection = 2, TLSHandshake = 0, ServerProcessing = 5\<rparr>, None) \<and>
   0 \<le> sint (ServerProcessing
      \<lparr>DNSLookup = 0, TCPConnection = 2, TLSHandshake = 0, ServerProcessing = (5 :: Duration)\<rparr>)"
proof -
  have neg: "serverProcessing (run_trace (trace (ok_call [ConnectDone 5, GotFirstResponseByte 3] 9))) <s 0"
    by (simp add: ok_call_def run_trace_def trace_init_def word_sless_alt)
  have ok: "performRequest (ok_call [ConnectDone 2, GotFirstResponseByte 7] 9) =
      (9, \<lparr>DNSLookup = 0, TCPConnection = 2, TLSHandshake = 0, ServerProcessing = 5\<rparr>, None)"
    by (simp add: performRequest_def ok_call_def run_trace_def trace_init_def Let_def word_sless_alt)
  from performRequest_negative_serverProcessing
         [of "ok_call [ConnectDone 5, GotFirstResponseByte 3] 9"] neg
  have "\<exists>e. performRequest (ok_call [ConnectDone 5, GotFirstResponseByte 3] 9) =
      (0, zero_timings, Some e)"
    by blast
  moreover from performRequest_negative_serverProcessing
         [of "ok_call [ConnectDone 2, GotFirstResponseByte 7] 9"] ok
  have "0 \<le> sint (ServerProcessing
      \<lparr>DNSLookup = 0, TCPConnection = 2, TLSHandshake = 0, ServerProcessing = (5 :: Duration)\<rparr>)"
    by blast
  ultimately show ?thesis using neg ok by blast
qed

section \<open>Loops over machine integers\<close>

lemma sint_succ_below: "sint (i :: go_int) < sint (n :: go_int) \<Longrightarrow> sint (i + 1) = sint i + 1"
proof -
  assume lt: "sint i < sint n"
  moreover have "sint n < 2 ^ 63" using sint_lt [of n] by simp
  moreover have "- (2 ^ 63) \<le> sint i" using sint_ge [of i] by simp
  ultimately show ?thesis
    by (simp add: sint_word_add signed_take_bit_int_eq_self)
qed

lemma length_loop_indices: "length (loop_indices i n) = nat (sint n - sint i)"
proof (induction i n rule: loop_indices.induct)
  case (1 i n)
  show ?case
  proof (cases "i <s n")
    case True
    then have lt: "sint i < sint n" by (simp add: word_sless_alt)
    have "length (loop_indices i n) = Suc (length (loop_indices (i + 1) n))"
      using True by (subst loop_indices.simps) simp
    also have "\<dots> = Suc (nat (sint n - sint (i + 1)))" using 1 True by simp
    also have "\<dots> = nat (sint n - sint i)" using lt sint_succ_below [OF lt] by simp
    finally show ?thesis .
  next
    case False
    then have "\<not> sint i < sint n" by (simp add: word_sless_alt)
    with False show ?thesis by (subst loop_indices.simps) simp
  qed
qed

lemma nth_loop_indices:
  "k < length (loop_indices i n) \<Longrightarrow> loop_indices i n ! k = i + word_of_nat k"
proof (induction i n arbitrary: k rule: loop_indices.induct)
  case (1 i n)
  show ?case
  proof (cases "i <s n")
    case True
    then have eq: "loop_indices i n = i # loop_indices (i + 1) n"
      by (subst loop_indices.simps) simp
    show ?thesis
    proof (cases k)
      case 0
      then show ?thesis using eq by simp
    next
      case (Suc j)
      with 1(2) eq have "j < length (loop_indices (i + 1) n)" by simp
      from 1(1) [OF True this] show ?thesis using eq Suc by (simp add: algebra_simps)
    qed
  next
    case False
    then have "loop_indices i n = []" by (subst loop_indices.simps) simp
    with 1(2) show ?thesis by simp
  qed
qed

lemma length_loop_indices_0: "length (loop_indices 0 n) = nat (sint n)"
  by (simp add: length_loop_indices)

lemma length_loop_indices_bound: "length (loop_indices 0 n) < 2 ^ 63"
proof -
  have "sint n < 2 ^ 63" using sint_lt [of n] by simp
  then have "nat (sint n) < nat (2 ^ 63)" by (cases "0 \<le> sint n") auto
  then show ?thesis by (simp add: length_loop_indices_0)
qed

lemma loop_indices_reqPerMethod: "loop_indices 0 reqPerMethod = [0]"
  by (simp add: reqPerMethod_def loop_indices.simps [of 0 1] loop_indices.simps [of 1 1] word_sless_alt)

section \<open>The loop of benchmarkMethod\<close>

lemma attempt_failed: "\<not> succeeded c \<Longrightarrow> attempt s c = s"
  by (cases "performRequest c") (auto simp: attempt_def succeeded_def)

lemma foldl_attempt_filter: "foldl attempt s cs = foldl attempt s (filter succeeded cs)"
  by (induction cs arbitrary: s) (simp_all add: attempt_failed)

lemma attempt_succeeded_count:
  "succeeded c \<Longrightarrow> performedRequests (attempt s c) = performedRequests s + 1"
  by (cases "performRequest c") (auto simp: attempt_def succeeded_def Let_def)

lemma attempt_succeeded_total:
  "succeeded c \<Longrightarrow> ph \<in> set phases \<Longrightarrow>
   ph (totalTimings (attempt s c)) = ph (totalTimings s) + ph (timings_of c)"
  by (cases "performRequest c") (auto simp: attempt_def succeeded_def timings_of_def Let_def phases_def)

lemma attempt_succeeded_first:
  "succeeded c \<Longrightarrow> performedRequests s = 0 \<Longrightarrow>
   minTimings (attempt s c) = timings_of c \<and> maxTimings (attempt s c) = timings_of c"
  by (cases "performRequest c") (auto simp: attempt_def succeeded_def timings_of_def Let_def)

lemma attempt_succeeded_later:
  "succeeded c \<Longrightarrow> performedRequests s \<noteq> 0 \<Longrightarrow> ph \<in> set phases \<Longrightarrow>
   ph (minTimings (attempt s c)) = minDuration (ph (minTimings s)) (ph (timings_of c)) \<and>
   ph (maxTimings (attempt s c)) = maxDuration (ph (maxTimings s)) (ph (timings_of c))"
  by (cases "performRequest c") (auto simp: attempt_def succeeded_def timings_of_def Let_def phases_def)

lemma attempt_succeeded_time:
  "succeeded c \<Longrightarrow> totalTime (attempt s c) = totalTime s + fst (performRequest c)"
  by (cases "performRequest c") (auto simp: attempt_def succeeded_def Let_def)

lemma foldl_attempt_count:
  "\<forall>c \<in> set cs. succeeded c \<Longrightarrow>
   performedRequests (foldl attempt s cs) = performedRequests s + word_of_nat (length cs)"
  by (induction cs arbitrary: s) (simp_all add: attempt_succeeded_count algebra_simps)

lemma foldl_attempt_total:
  "\<forall>c \<in> set cs. succeeded c \<Longrightarrow> ph \<in> set phases \<Longrightarrow>
   ph (totalTimings (foldl attempt s cs)) =
     ph (totalTimings s) + sum_list (map (\<lambda>c. ph (timings_of c)) cs)"
  by (induction cs arbitrary: s) (simp_all add: attempt_succeeded_total algebra_simps)

lemma word_of_nat_pos_neq_0:
  "0 < k \<Longrightarrow> k < 2 ^ 64 \<Longrightarrow> (word_of_nat k :: go_int) \<noteq> 0"
  by (simp add: word_of_nat_eq_0_iff dvd_def) (metis nat_dvd_not_less dvd_def)

lemma foldl_attempt_minmax:
  "\<forall>c \<in> set cs. succeeded c \<Longrightarrow> ph \<in> set phases \<Longrightarrow>
   performedRequests s = word_of_nat k \<Longrightarrow> 0 < k \<Longrightarrow> k + length cs < 2 ^ 64 \<Longrightarrow>
   ph (minTimings (foldl attempt s cs)) =
     foldl minDuration (ph (minTimings s)) (map (\<lambda>c. ph (timings_of c)) cs) \<and>
   ph (maxTimings (foldl attempt s cs)) =
     foldl maxDuration (ph (maxTimings s)) (map (\<lambda>c. ph (timings_of c)) cs)"
proof (induction cs arbitrary: s k)
  case Nil
  then show ?case by simp
next
  case (Cons c cs)
  have nz: "performedRequests s \<noteq> 0"
    using Cons.prems word_of_nat_pos_neq_0 [of k] by simp
  have sc: "succeeded c" using Cons.prems by simp
  have cnt: "performedRequests (attempt s c) = word_of_nat (Suc k)"
    using attempt_succeeded_count [OF sc, of s] Cons.prems by simp
  have step: "ph (minTimings (attempt s c)) = minDuration (ph (minTimings s)) (ph (timings_of c))"
    "ph (maxTimings (attempt s c)) = maxDuration (ph (maxTimings s)) (ph (timings_of c))"
    using attempt_succeeded_later [OF sc nz Cons.prems(2)] by simp_all
  have "ph (minTimings (foldl attempt (attempt s c) cs)) =
     foldl minDuration (ph (minTimings (attempt s c))) (map (\<lambda>c. ph (timings_of c)) cs) \<and>
   ph (maxTimings (foldl attempt (attempt s c) cs)) =
     foldl maxDuration (ph (maxTimings (attempt s c))) (map (\<lambda>c. ph (timings_of c)) cs)"
    using Cons.prems by (intro Cons.IH [OF _ _ cnt]) simp_all
  then show ?case by (simp add: step)
qed

lemma sint_minDuration: "sint (minDuration a b) = min (sint a) (sint b)"
  by (simp add: minDuration_def word_sless_alt min_def)

lemma sint_maxDuration: "sint (maxDuration a b) = max (sint a) (sint b)"
  by (simp add: maxDuration_def word_sless_alt max_def)

lemma sint_foldl_minDuration: "sint (foldl minDuration a xs) = Min (sint ` set (a # xs))"
proof (induction xs arbitrary: a)
  case Nil
  then show ?case by simp
next
  case (Cons x xs)
  have "sint (foldl minDuration (minDuration a x) xs) = Min (sint ` set (minDuration a x # xs))"
    by (rule Cons.IH)
  also have "\<dots> = Min (insert (min (sint a) (sint x)) (sint ` set xs))"
    by (simp add: sint_minDuration)
  also have "\<dots> = Min (sint ` set (a # x # xs))"
  proof (cases "xs = []")
    case True
    then show ?thesis by simp
  next
    case False
    then show ?thesis by (simp add: Min_insert min.assoc)
  qed
  finally show ?case by simp
qed

lemma sint_foldl_maxDuration: "sint (foldl maxDuration a xs) = Max (sint ` set (a # xs))"
proof (induction xs arbitrary: a)
  case Nil
  then show ?case by simp
next
  case (Cons x xs)
  have "sint (foldl maxDuration (maxDuration a x) xs) = Max (sint ` set (maxDuration a x # xs))"
    by (rule Cons.IH)
  also have "\<dots> = Max (insert (max (sint a) (sint x)) (sint ` set xs))"
    by (simp add: sint_maxDuration)
  also have "\<dots> = Max (sint ` set (a # x # xs))"
  proof (cases "xs = []")
    case True
    then show ?thesis by simp
  next
    case False
    then show ?thesis by (simp add: Max_insert max.assoc)
  qed
  finally show ?case by simp
qed

lemma sint_word_of_nat_small: "k < 2 ^ 63 \<Longrightarrow> sint (word_of_nat k :: go_int) = int k"
proof -
  assume "k < 2 ^ 63"
  then have "int k < 2 ^ 63" by (metis of_nat_less_iff of_nat_numeral of_nat_power)
  then show ?thesis
    by (simp add: signed_of_nat signed_take_bit_int_eq_self)
qed

lemma sint_sum_list:
  "\<forall>w \<in> set ws. 0 \<le> sint w \<Longrightarrow> (\<Sum>w\<leftarrow>ws. sint w) < 2 ^ 63 \<Longrightarrow>
   sint (sum_list ws :: go_int) = (\<Sum>w\<leftarrow>ws. sint w)"
proof (induction ws)
  case Nil
  then show ?case by simp
next
  case (Cons w ws)
  have nn: "0 \<le> sint w" using Cons.prems by simp
  have nns: "0 \<le> (\<Sum>w\<leftarrow>ws. sint w)" using Cons.prems(1) by (intro sum_list_nonneg) auto
  have "(\<Sum>w\<leftarrow>ws. sint w) < 2 ^ 63" using Cons.prems(2) nn by simp
  with Cons have ih: "sint (sum_list ws) = (\<Sum>w\<leftarrow>ws. sint w)" by simp
  have "sint (w + sum_list ws) = signed_take_bit 63 (sint w + sint (sum_list ws))"
    by (simp add: sint_word_add)
  also have "\<dots> = sint w + (\<Sum>w\<leftarrow>ws. sint w)"
    using nn nns Cons.prems(2) by (simp add: ih signed_take_bit_int_eq_self)
  finally show ?case by simp
qed

lemma sint_go_div_nonneg:
  assumes "0 \<le> sint a" "0 < sint b"
  shows "sint (go_div a b) = sint a div sint b"
proof -
  have eq: "sint a sdiv sint b = sint a div sint b"
    using assms by (simp add: signed_divide_int_def sgn_if)
  have "0 \<le> sint a div sint b" using assms by (simp add: pos_imp_zdiv_nonneg_iff)
  moreover have "sint a div sint b \<le> sint a"
    using zdiv_mono2 [of "sint a" 1 "sint b"] assms by simp
  moreover have "sint a < 2 ^ 63" using sint_lt [of a] by simp
  ultimately have "signed_take_bit 63 (sint a div sint b) = sint a div sint b"
    by (intro signed_take_bit_int_eq_self) simp_all
  then show ?thesis
    by (simp add: go_div_def eq sint_sbintrunc')
qed

lemma bench_run_filter: "foldl attempt bench_init cs = foldl attempt bench_init (filter succeeded cs)"
  by (rule foldl_attempt_filter)

lemma bench_count:
  "performedRequests (foldl attempt bench_init cs) = word_of_nat (length (filter succeeded cs))"
proof -
  have "performedRequests (foldl attempt bench_init (filter succeeded cs)) =
      performedRequests bench_init + word_of_nat (length (filter succeeded cs))"
    by (rule foldl_attempt_count) simp
  moreover have "performedRequests bench_init = 0" by (simp add: bench_init_def)
  ultimately show ?thesis
    by (simp add: foldl_attempt_filter [of bench_init cs])
qed

lemma bench_total:
  assumes "ph \<in> set phases"
  shows "ph (totalTimings (foldl attempt bench_init cs)) =
     sum_list (map (\<lambda>c. ph (timings_of c)) (filter succeeded cs))"
proof -
  have "ph (totalTimings (foldl attempt bench_init (filter succeeded cs))) =
      ph (totalTimings bench_init) + sum_list (map (\<lambda>c. ph (timings_of c)) (filter succeeded cs))"
    by (rule foldl_attempt_total) (simp_all add: assms)
  moreover have "ph (totalTimings bench_init) = 0"
    using assms by (auto simp: bench_init_def zero_timings_def phases_def)
  ultimately show ?thesis
    by (simp add: foldl_attempt_filter [of bench_init cs])
qed

lemma bench_minmax:
  assumes ph: "ph \<in> set phases" and ne: "filter succeeded cs \<noteq> []"
    and len: "length cs < 2 ^ 63"
  shows "sint (ph (minTimings (foldl attempt bench_init cs))) =
           Min ((\<lambda>c. sint (ph (timings_of c))) ` set (filter succeeded cs))"
    and "sint (ph (maxTimings (foldl attempt bench_init cs))) =
           Max ((\<lambda>c. sint (ph (timings_of c))) ` set (filter succeeded cs))"
proof -
  from ne obtain c rest where succ: "filter succeeded cs = c # rest"
    by (cases "filter succeeded cs") auto
  have "set (c # rest) = {x \<in> set cs. succeeded x}"
    unfolding succ [symmetric] by simp
  then have all: "\<forall>x \<in> set (c # rest). succeeded x"
    by blast
  then have sc: "succeeded c" and sr: "\<forall>x \<in> set rest. succeeded x" by simp_all
  have "length (c # rest) \<le> length cs"
    by (metis succ length_filter_le)
  with len have bound: "1 + length rest < 2 ^ 64" by simp
  let ?s = "attempt bench_init c"
  have init0: "performedRequests bench_init = 0" by (simp add: bench_init_def)
  have first: "minTimings ?s = timings_of c" "maxTimings ?s = timings_of c"
    using attempt_succeeded_first [OF sc, of bench_init] init0 by simp_all
  have cnt: "performedRequests ?s = word_of_nat 1"
    using attempt_succeeded_count [OF sc, of bench_init] init0 by simp
  have mm: "ph (minTimings (foldl attempt ?s rest)) =
       foldl minDuration (ph (minTimings ?s)) (map (\<lambda>c. ph (timings_of c)) rest) \<and>
     ph (maxTimings (foldl attempt ?s rest)) =
       foldl maxDuration (ph (maxTimings ?s)) (map (\<lambda>c. ph (timings_of c)) rest)"
    by (rule foldl_attempt_minmax [OF sr ph cnt _ bound]) simp
  have run: "foldl attempt bench_init cs = foldl attempt ?s rest"
    by (simp add: foldl_attempt_filter [of bench_init cs] succ)
  have img: "sint ` set (ph (timings_of c) # map (\<lambda>c. ph (timings_of c)) rest) =
      (\<lambda>c. sint (ph (timings_of c))) ` set (c # rest)"
    by (simp add: image_image)
  show "sint (ph (minTimings (foldl attempt bench_init cs))) =
           Min ((\<lambda>c. sint (ph (timings_of c))) ` set (filter succeeded cs))"
    using mm by (simp only: run first sint_foldl_minDuration img succ)
  show "sint (ph (maxTimings (foldl attempt bench_init cs))) =
           Max ((\<lambda>c. sint (ph (timings_of c))) ` set (filter succeeded cs))"
    using mm by (simp only: run first sint_foldl_maxDuration img succ)
qed

lemma bench_time:
  "totalTime (foldl attempt bench_init cs) =
     sum_list (map (\<lambda>c. fst (performRequest c)) (filter succeeded cs))"
proof -
  have "\<forall>c \<in> set xs. succeeded c \<Longrightarrow>
     totalTime (foldl attempt s xs) = totalTime s + sum_list (map (\<lambda>c. fst (performRequest c)) xs)"
    for xs s
    by (induction xs arbitrary: s) (simp_all add: attempt_succeeded_time algebra_simps)
  from this [of "filter succeeded cs" bench_init]
  have "totalTime (foldl attempt bench_init (filter succeeded cs)) =
      totalTime bench_init + sum_list (map (\<lambda>c. fst (performRequest c)) (filter succeeded cs))"
    by simp
  moreover have "totalTime bench_init = 0" by (simp add: bench_init_def)
  ultimately show ?thesis
    by (simp add: foldl_attempt_filter [of bench_init cs])
qed

lemma benchmarkRepeat_sel:
  "BenchmarkResult.RequestsCount (benchmarkRepeat R url method params cf) =
     performedRequests (foldl attempt bench_init (map cf (loop_indices 0 R)))"
  "BenchmarkResult.MinTimings (benchmarkRepeat R url method params cf) =
     minTimings (foldl attempt bench_init (map cf (loop_indices 0 R)))"
  "BenchmarkResult.MaxTimings (benchmarkRepeat R url method params cf) =
     maxTimings (foldl attempt bench_init (map cf (loop_indices 0 R)))"
  "TotalTimings (benchmarkRepeat R url method params cf) =
     totalTimings (foldl attempt bench_init (map cf (loop_indices 0 R)))"
  "BenchmarkResult.TotalTime (benchmarkRepeat R url method params cf) =
     totalTime (foldl attempt bench_init (map cf (loop_indices 0 R)))"
  "BenchmarkResult.URL (benchmarkRepeat R url method params cf) = url"
  "BenchmarkResult.Method (benchmarkRepeat R url method params cf) = method"
  "Params (benchmarkRepeat R url method params cf) = params"
  by (simp_all add: benchmarkRepeat_def Let_def)

lemma benchmarkRepeat_avg:
  "ph \<in> set phases \<Longrightarrow>
   ph (AverageTimings (benchmarkRepeat R url method params cf)) =
     (if 0 <s BenchmarkResult.RequestsCount (benchmarkRepeat R url method params cf)
      then go_div (ph (TotalTimings (benchmarkRepeat R url method params cf)))
             (BenchmarkResult.RequestsCount (benchmarkRepeat R url method params cf))
      else 0)"
  by (auto simp: benchmarkRepeat_def Let_def phases_def zero_timings_def)

lemma loop_indices_0_3: "loop_indices 0 3 = [0, 1, 2]"
  by (simp add: loop_indices.simps [of 0 3] loop_indices.simps [of 1 3]
      loop_indices.simps [of 2 3] loop_indices.simps [of 3 3] word_sless_alt)

lemma example_calls_performRequest:
  "performRequest (example_calls 0) =
     (12, \<lparr>DNSLookup = 1, TCPConnection = 2, TLSHandshake = 3, ServerProcessing = 4\<rparr>, None)"
  "performRequest (example_calls 1) = (0, zero_timings, Some TransportError)"
  "performRequest (example_calls 2) =
     (13, \<lparr>DNSLookup = 3, TCPConnection = 1, TLSHandshake = 5, ServerProcessing = 2\<rparr>, None)"
  by (simp_all add: example_calls_def performRequest_def ok_call_def run_trace_def trace_init_def
      Let_def word_sless_alt)

lemma example_succeeded:
  "filter succeeded (map example_calls [0, 1, 2]) = [example_calls 0, example_calls 2]"
  by (simp add: succeeded_def example_calls_performRequest)

lemma example_timings:
  "timings_of (example_calls 0) =
     \<lparr>DNSLookup = 1, TCPConnection = 2, TLSHandshake = 3, ServerProcessing = 4\<rparr>"
  "timings_of (example_calls 2) =
     \<lparr>DNSLookup = 3, TCPConnection = 1, TLSHandshake = 5, ServerProcessing = 2\<rparr>"
  by (simp_all add: timings_of_def example_calls_performRequest)

lemma example_result:
  "benchmarkRepeat 3 url method params example_calls =
     \<lparr>BenchmarkResult.URL = url, Method = method,
      MinTimings = \<lparr>DNSLookup = 1, TCPConnection = 1, TLSHandshake = 3, ServerProcessing = 2\<rparr>,
      MaxTimings = \<lparr>DNSLookup = 3, TCPConnection = 2, TLSHandshake = 5, ServerProcessing = 4\<rparr>,
      AverageTimings = \<lparr>DNSLookup = 2, TCPConnection = 1, TLSHandshake = 4, ServerProcessing = 3\<rparr>,
      TotalTimings = \<lparr>DNSLookup = 4, TCPConnection = 3, TLSHandshake = 8, ServerProcessing = 6\<rparr>,
      TotalTime = 25, RequestsCount = 2, Params = params\<rparr>"
  by (simp add: benchmarkRepeat_def loop_indices_0_3 attempt_def example_calls_performRequest
      bench_init_def zero_timings_def minDuration_def maxDuration_def go_div_def word_sless_alt
      signed_divide_int_def Let_def)

text \<open>
  C4. In a run of \<open>R\<close> attempts the loop state, and so the result, is that of the
  successful attempts alone: a failed attempt changes nothing and the attempts after it
  are still made. The count is the number of successes, the total time and the total of
  each phase are the sums over the successes, and the minimum and the maximum of each
  phase are taken over the successes for that phase alone. In the example the minimum
  record is \<open>(1, 1, 3, 2)\<close>, which is the timing of neither successful attempt.
\<close>

theorem benchmark_skips_failures_min_max_per_phase:
  "let cs = map cf (loop_indices 0 R);
       succ = filter succeeded cs;
       r = benchmarkRepeat R url method params cf
   in foldl attempt bench_init cs = foldl attempt bench_init succ \<and>
      BenchmarkResult.RequestsCount r = word_of_nat (length succ) \<and>
      BenchmarkResult.TotalTime r = sum_list (map (\<lambda>c. fst (performRequest c)) succ) \<and>
      (\<forall>ph \<in> set phases.
         ph (TotalTimings r) = sum_list (map (\<lambda>c. ph (timings_of c)) succ) \<and>
         (succ \<noteq> [] \<longrightarrow>
            sint (ph (BenchmarkResult.MinTimings r)) =
              Min ((\<lambda>c. sint (ph (timings_of c))) ` set succ) \<and>
            sint (ph (BenchmarkResult.MaxTimings r)) =
              Max ((\<lambda>c. sint (ph (timings_of c))) ` set succ)))"
proof -
  have len: "length (map cf (loop_indices 0 R)) < 2 ^ 63"
    using length_loop_indices_bound [of R] by simp
  show ?thesis
    unfolding Let_def benchmarkRepeat_sel
    using len
    by (intro conjI ballI impI foldl_attempt_filter bench_count bench_time bench_total
        bench_minmax) 
qed

theorem benchmark_skips_failures_min_max_per_phase_witness:
  "DNSLookup \<in> set phases \<and>
   filter succeeded (map example_calls (loop_indices 0 3)) = [example_calls 0, example_calls 2] \<and>
   filter succeeded (map example_calls (loop_indices 0 3)) \<noteq> [] \<and>
   sint (DNSLookup (BenchmarkResult.MinTimings (benchmarkRepeat 3 ''u'' ''m'' (''k'', []) example_calls))) =
     Min ((\<lambda>c. sint (DNSLookup (timings_of c))) `
       set (filter succeeded (map example_calls (loop_indices 0 3)))) \<and>
   BenchmarkResult.MinTimings (benchmarkRepeat 3 ''u'' ''m'' (''k'', []) example_calls) =
     \<lparr>DNSLookup = 1, TCPConnection = 1, TLSHandshake = 3, ServerProcessing = 2\<rparr> \<and>
   timings_of (example_calls 0) =
     \<lparr>DNSLookup = 1, TCPConnection = 2, TLSHandshake = 3, ServerProcessing = 4\<rparr> \<and>
   timings_of (example_calls 2) =
     \<lparr>DNSLookup = 3, TCPConnection = 1, TLSHandshake = 5, ServerProcessing = 2\<rparr>"
proof -
  have ph: "DNSLookup \<in> set phases" by (simp add: phases_def)
  have succ: "filter succeeded (map example_calls (loop_indices 0 3)) =
      [example_calls 0, example_calls 2]"
    unfolding loop_indices_0_3 by (rule example_succeeded)
  then have ne: "filter succeeded (map example_calls (loop_indices 0 3)) \<noteq> []" by simp
  from benchmark_skips_failures_min_max_per_phase [of example_calls 3 "''u''" "''m''" "(''k'', [])"]
  have "sint (DNSLookup (BenchmarkResult.MinTimings (benchmarkRepeat 3 ''u'' ''m'' (''k'', []) example_calls))) =
     Min ((\<lambda>c. sint (DNSLookup (timings_of c))) `
       set (filter succeeded (map example_calls (loop_indices 0 3))))"
    using ph ne unfolding Let_def by blast
  moreover have "BenchmarkResult.MinTimings (benchmarkRepeat 3 ''u'' ''m'' (''k'', []) example_calls) =
     \<lparr>DNSLookup = 1, TCPConnection = 1, TLSHandshake = 3, ServerProcessing = 2\<rparr>"
    by (simp add: example_result)
  ultimately show ?thesis
    using ph succ ne example_timings by simp
qed

lemma bench_count_sint:
  assumes "length cs < 2 ^ 63"
  shows "sint (performedRequests (foldl attempt bench_init cs)) = int (length (filter succeeded cs))"
proof -
  have "length (filter succeeded cs) \<le> length cs" by simp
  with assms have "length (filter succeeded cs) < 2 ^ 63" by linarith
  then show ?thesis by (simp add: bench_count sint_word_of_nat_small)
qed

text \<open>
  C5. With \<open>n \<ge> 1\<close> successful attempts, the average of each phase is the total of
  that phase over the successes divided by \<open>n\<close>, the quotient truncated towards zero
  (\<open>sdiv\<close>); where the durations of the phase are not negative and their sum fits
  into 64 bits, it is the floor of the sum divided by \<open>n\<close>.
\<close>

theorem benchmark_average_truncating_division:
  "let cs = map cf (loop_indices 0 R);
       succ = filter succeeded cs;
       r = benchmarkRepeat R url method params cf
   in sint (BenchmarkResult.RequestsCount r) = int (length succ) \<and>
      (\<forall>ph \<in> set phases.
         ph (TotalTimings r) = sum_list (map (\<lambda>c. ph (timings_of c)) succ) \<and>
         (1 \<le> length succ \<longrightarrow>
            ph (AverageTimings r) =
              word_of_int (sint (ph (TotalTimings r)) sdiv int (length succ))) \<and>
         (1 \<le> length succ \<and> (\<forall>c \<in> set succ. 0 \<le> sint (ph (timings_of c))) \<and>
          (\<Sum>c\<leftarrow>succ. sint (ph (timings_of c))) < 2 ^ 63 \<longrightarrow>
            sint (ph (AverageTimings r)) =
              (\<Sum>c\<leftarrow>succ. sint (ph (timings_of c))) div int (length succ)))"
proof -
  define cs where "cs = map cf (loop_indices 0 R)"
  define succ where "succ = filter succeeded cs"
  define r where "r = benchmarkRepeat R url method params cf"
  have len: "length cs < 2 ^ 63"
    using length_loop_indices_bound [of R] by (simp add: cs_def)
  have cnt: "sint (BenchmarkResult.RequestsCount r) = int (length succ)"
    unfolding r_def benchmarkRepeat_sel succ_def cs_def [symmetric]
    by (rule bench_count_sint [OF len])
  have main: "ph (TotalTimings r) = sum_list (map (\<lambda>c. ph (timings_of c)) succ) \<and>
         (1 \<le> length succ \<longrightarrow>
            ph (AverageTimings r) =
              word_of_int (sint (ph (TotalTimings r)) sdiv int (length succ))) \<and>
         (1 \<le> length succ \<and> (\<forall>c \<in> set succ. 0 \<le> sint (ph (timings_of c))) \<and>
          (\<Sum>c\<leftarrow>succ. sint (ph (timings_of c))) < 2 ^ 63 \<longrightarrow>
            sint (ph (AverageTimings r)) =
              (\<Sum>c\<leftarrow>succ. sint (ph (timings_of c))) div int (length succ))"
    if ph: "ph \<in> set phases" for ph
  proof (intro conjI impI)
    show tot: "ph (TotalTimings r) = sum_list (map (\<lambda>c. ph (timings_of c)) succ)"
      unfolding r_def benchmarkRepeat_sel succ_def cs_def [symmetric]
      by (rule bench_total [OF ph])
    have avg: "ph (AverageTimings r) =
        go_div (ph (TotalTimings r)) (BenchmarkResult.RequestsCount r)"
      if "1 \<le> length succ"
    proof -
      from that have "0 < int (length succ)" by linarith
      then have "sint 0 < sint (BenchmarkResult.RequestsCount r)"
        by (simp only: cnt sint_0)
      then have "0 <s BenchmarkResult.RequestsCount r"
        by (simp only: word_sless_alt)
      then show ?thesis
        unfolding r_def by (simp add: benchmarkRepeat_avg [OF ph])
    qed
    show "ph (AverageTimings r) =
        word_of_int (sint (ph (TotalTimings r)) sdiv int (length succ))"
      if "1 \<le> length succ"
      using avg [OF that] by (simp add: go_div_def cnt)
    show "sint (ph (AverageTimings r)) =
        (\<Sum>c\<leftarrow>succ. sint (ph (timings_of c))) div int (length succ)"
      if h: "1 \<le> length succ \<and> (\<forall>c \<in> set succ. 0 \<le> sint (ph (timings_of c))) \<and>
          (\<Sum>c\<leftarrow>succ. sint (ph (timings_of c))) < 2 ^ 63"
    proof -
      have "sint (sum_list (map (\<lambda>c. ph (timings_of c)) succ)) =
          (\<Sum>w\<leftarrow>map (\<lambda>c. ph (timings_of c)) succ. sint w)"
        using h by (intro sint_sum_list) (simp_all add: comp_def)
      then have st: "sint (ph (TotalTimings r)) = (\<Sum>c\<leftarrow>succ. sint (ph (timings_of c)))"
        by (simp add: tot comp_def)
      have nn: "0 \<le> sint (ph (TotalTimings r))"
        unfolding st using h by (intro sum_list_nonneg) auto
      from h have one: "1 \<le> length succ" by blast
      then have "0 < int (length succ)" by linarith
      then have pos: "0 < sint (BenchmarkResult.RequestsCount r)" by (simp only: cnt)
      note one
      from avg [OF this] sint_go_div_nonneg [OF nn pos] show ?thesis
        by (simp add: st cnt)
    qed
  qed
  show ?thesis
    unfolding Let_def cs_def [symmetric] succ_def [symmetric] r_def [symmetric]
    using cnt main by blast
qed

theorem benchmark_average_truncating_division_witness:
  "TCPConnection \<in> set phases \<and>
   filter succeeded (map example_calls (loop_indices 0 3)) = [example_calls 0, example_calls 2] \<and>
   1 \<le> length (filter succeeded (map example_calls (loop_indices 0 3))) \<and>
   0 \<le> sint (TCPConnection (timings_of (example_calls 0))) \<and>
   0 \<le> sint (TCPConnection (timings_of (example_calls 2))) \<and>
   (\<Sum>c\<leftarrow>filter succeeded (map example_calls (loop_indices 0 3)).
      sint (TCPConnection (timings_of c))) = 3 \<and>
   TCPConnection (TotalTimings (benchmarkRepeat 3 ''u'' ''m'' (''k'', []) example_calls)) = 3 \<and>
   sint (TCPConnection (AverageTimings (benchmarkRepeat 3 ''u'' ''m'' (''k'', []) example_calls))) = 3 div 2 \<and>
   TCPConnection (AverageTimings (benchmarkRepeat 3 ''u'' ''m'' (''k'', []) example_calls)) = 1"
proof -
  let ?succ = "filter succeeded (map example_calls (loop_indices 0 3))"
  have ph: "TCPConnection \<in> set phases" by (simp add: phases_def)
  have succ: "?succ = [example_calls 0, example_calls 2]"
    unfolding loop_indices_0_3 by (rule example_succeeded)
  have len: "1 \<le> length ?succ" by (simp add: succ)
  have nn: "\<forall>c \<in> set ?succ. 0 \<le> sint (TCPConnection (timings_of c))"
    by (simp add: succ example_timings)
  have sum: "(\<Sum>c\<leftarrow>?succ. sint (TCPConnection (timings_of c))) = 3"
    by (simp add: succ example_timings)
  then have bound: "(\<Sum>c\<leftarrow>?succ. sint (TCPConnection (timings_of c))) < 2 ^ 63" by simp
  have l2: "int (length ?succ) = 2" unfolding succ by simp
  from benchmark_average_truncating_division [of example_calls 3 "''u''" "''m''" "(''k'', [])"]
  have "sint (TCPConnection (AverageTimings (benchmarkRepeat 3 ''u'' ''m'' (''k'', []) example_calls))) =
      (\<Sum>c\<leftarrow>?succ. sint (TCPConnection (timings_of c))) div int (length ?succ)"
    using ph len nn bound unfolding Let_def by blast
  then have "sint (TCPConnection (AverageTimings (benchmarkRepeat 3 ''u'' ''m'' (''k'', []) example_calls))) =
      3 div 2"
    unfolding sum l2 .
  moreover have "TCPConnection (TotalTimings (benchmarkRepeat 3 ''u'' ''m'' (''k'', []) example_calls)) = 3"
    "TCPConnection (AverageTimings (benchmarkRepeat 3 ''u'' ''m'' (''k'', []) example_calls)) = 1"
    by (simp_all add: example_result)
  moreover have "0 \<le> sint (TCPConnection (timings_of (example_calls 0)))"
    "0 \<le> sint (TCPConnection (timings_of (example_calls 2)))"
    using nn by (simp_all add: succ)
  ultimately show ?thesis
    using ph succ len sum by blast
qed

section \<open>The scheduler\<close>

lemma run_unit_Inr:
  assumes "run_unit client rateLimit G url keys idx env h = Inr (u, h')"
  shows "run_client u = client"
    and "run_params u = (keys ! nat (sint idx), [(''encoding'', ''jsonParsed''), (''commitment'', ''finalized'')])"
    and "sent u = (if marshalErr env then []
           else if BenchmarkResult.RequestsCount (benchmarkMethod url G (run_params u) (calls env)) \<noteq> 0
           then [benchmarkMethod url G (run_params u) (calls env)] else [])"
    and "run_limiter u = (if marshalErr env then None else Some (length h))"
    and "h' = (if marshalErr env then h else h @ [Limiter rateLimit 1])"
  using assms
  by (auto simp: run_unit_def Let_def new_object_def split: if_splits)

lemma run_unit_in_range:
  assumes "0 \<le> sint idx" "sint idx < int (length keys)"
  shows "\<exists>u h'. run_unit client rateLimit G url keys idx env h = Inr (u, h')"
  using assms by (simp add: run_unit_def Let_def new_object_def)

lemma sint_go_rem_nonneg:
  assumes "0 \<le> sint a" "0 < sint b"
  shows "sint (go_rem a b) = sint a mod sint b"
proof -
  have eq: "sint a smod sint b = sint a mod sint b"
    using assms by (simp add: signed_modulo_int_def sgn_if)
  have "0 \<le> sint a mod sint b" using assms by simp
  moreover have "sint a mod sint b < sint b" using assms by simp
  moreover have "sint b < 2 ^ 63" using sint_lt [of b] by simp
  ultimately have "signed_take_bit 63 (sint a mod sint b) = sint a mod sint b"
    by (intro signed_take_bit_int_eq_self) simp_all
  then show ?thesis
    by (simp add: go_rem_def eq sint_sbintrunc')
qed

lemma launch_ok:
  assumes p: "1 \<le> length keys" "length keys < 2 ^ 63"
    and nn: "\<forall>i \<in> set is. 0 \<le> sint i"
  shows "\<exists>us h'. launch client rateLimit G url keys envs is h = Inr (us, h') \<and>
           length us = length is \<and>
           (\<forall>j < length is.
              run_params (us ! j) =
                (keys ! (nat (sint (is ! j)) mod length keys),
                 [(''encoding'', ''jsonParsed''), (''commitment'', ''finalized'')]))"
  using nn
proof (induction "is" arbitrary: h)
  case Nil
  then show ?case by simp
next
  case (Cons i "is")
  let ?P = "word_of_nat (length keys) :: go_int"
  have sP: "sint ?P = int (length keys)" using p by (simp add: sint_word_of_nat_small)
  have lenpos: "0 < int (length keys)" using p(1) by linarith
  then have pos: "0 < sint ?P" by (simp only: sP)
  then have nz: "?P \<noteq> 0" by auto
  have si: "0 \<le> sint i" using Cons.prems by simp
  have idx: "sint (go_rem i ?P) = sint i mod int (length keys)"
    using sint_go_rem_nonneg [OF si pos] sP by simp
  have "0 \<le> sint (go_rem i ?P)" "sint (go_rem i ?P) < int (length keys)"
    unfolding idx using lenpos by simp_all
  from run_unit_in_range [OF this] obtain u h1 where
    ru: "run_unit client rateLimit G url keys (go_rem i ?P) (envs i) h = Inr (u, h1)"
    by blast
  have pu: "run_params u = (keys ! (nat (sint i) mod length keys),
      [(''encoding'', ''jsonParsed''), (''commitment'', ''finalized'')])"
    using run_unit_Inr(2) [OF ru] idx si by (simp add: nat_mod_distrib)
  from Cons.IH [of h1] Cons.prems obtain us h2 where
    rest: "launch client rateLimit G url keys envs is h1 = Inr (us, h2)"
      "length us = length is"
      "\<forall>j < length is. run_params (us ! j) =
         (keys ! (nat (sint (is ! j)) mod length keys),
          [(''encoding'', ''jsonParsed''), (''commitment'', ''finalized'')])"
    by auto
  have "launch client rateLimit G url keys envs (i # is) h = Inr (u # us, h2)"
    using nz ru rest(1) by (simp add: Let_def)
  moreover have "\<forall>j < length (i # is). run_params ((u # us) ! j) =
         (keys ! (nat (sint ((i # is) ! j)) mod length keys),
          [(''encoding'', ''jsonParsed''), (''commitment'', ''finalized'')])"
    using pu rest(3) by (auto simp: nth_Cons split: nat.splits)
  ultimately show ?case using rest(2) by simp
qed

lemma sint_loop_indices_nth:
  assumes "j < length (loop_indices 0 n)"
  shows "sint (loop_indices 0 n ! j) = int j"
proof -
  have "j < 2 ^ 63" using assms length_loop_indices_bound [of n] by linarith
  then show ?thesis
    using nth_loop_indices [OF assms] by (simp add: sint_word_of_nat_small)
qed

lemma loop_indices_nonneg: "\<forall>i \<in> set (loop_indices 0 n). 0 \<le> sint i"
  by (auto simp: in_set_conv_nth sint_loop_indices_nth)

lemma benchmarkMethod_count:
  "BenchmarkResult.RequestsCount (benchmarkMethod url method params cf) =
     (if succeeded (cf 0) then 1 else 0)"
proof -
  have "BenchmarkResult.RequestsCount (benchmarkMethod url method params cf) =
      word_of_nat (length (filter succeeded (map cf (loop_indices 0 reqPerMethod))))"
    unfolding benchmarkMethod_def benchmarkRepeat_sel by (rule bench_count)
  then show ?thesis by (simp add: loop_indices_reqPerMethod)
qed

lemma benchmarkMethod_key:
  "BenchmarkResult.URL (benchmarkMethod url method params cf) = url"
  "BenchmarkResult.Method (benchmarkMethod url method params cf) = method"
  by (simp_all add: benchmarkMethod_def benchmarkRepeat_sel)

lemma run_unit_sent:
  assumes "run_unit client rateLimit G url keys idx env h = Inr (u, h')"
  shows "length (sent u) \<le> 1"
    and "\<forall>r \<in> set (sent u). BenchmarkResult.RequestsCount r = 1 \<and>
           BenchmarkResult.URL r = url \<and> BenchmarkResult.Method r = G"
  using run_unit_Inr(3) [OF assms]
  by (auto simp: benchmarkMethod_count benchmarkMethod_key split: if_splits)

lemma launch_sent:
  "launch client rateLimit G url keys envs is h = Inr (us, h') \<Longrightarrow>
   length us = length is \<and>
   (\<forall>u \<in> set us. length (sent u) \<le> 1 \<and>
      (\<forall>r \<in> set (sent u). BenchmarkResult.RequestsCount r = 1 \<and>
         BenchmarkResult.URL r = url \<and> BenchmarkResult.Method r = G))"
proof (induction "is" arbitrary: h us)
  case Nil
  then show ?case by auto
next
  case (Cons i "is")
  from Cons.prems obtain u h1 us' where
    ru: "run_unit client rateLimit G url keys (go_rem i (word_of_nat (length keys))) (envs i) h
          = Inr (u, h1)"
    and rest: "launch client rateLimit G url keys envs is h1 = Inr (us', h')"
    and us: "us = u # us'"
    by (auto simp: Let_def split: if_splits sum.splits)
  from Cons.IH [OF rest] run_unit_sent [OF ru] show ?case
    by (simp add: us)
qed

lemma length_concat_le:
  "\<forall>x \<in> set xss. length x \<le> 1 \<Longrightarrow> length (concat xss) \<le> length xss"
  by (induction xss) auto

lemma StartTest_launch_sent:
  assumes "StartTest_launch providerURL rateLimit totalRequests AccountKeys G envs = Inr (us, h)"
  shows "length (sent_results us) < 2 ^ 63"
    and "\<forall>r \<in> set (sent_results us). BenchmarkResult.RequestsCount r = 1 \<and>
           BenchmarkResult.URL r = providerURL \<and> BenchmarkResult.Method r = G"
proof -
  from assms have l: "launch 0 rateLimit G providerURL AccountKeys envs
      (loop_indices 0 totalRequests) [HTTPClient False] = Inr (us, h)"
    by (simp add: StartTest_launch_def new_object_def)
  note ls = launch_sent [OF l]
  have "length (sent_results us) \<le> length us"
    unfolding sent_results_def using ls by (intro order_trans [OF length_concat_le]) auto
  also have "\<dots> < 2 ^ 63" using ls length_loop_indices_bound [of totalRequests] by simp
  finally show "length (sent_results us) < 2 ^ 63" .
  show "\<forall>r \<in> set (sent_results us). BenchmarkResult.RequestsCount r = 1 \<and>
           BenchmarkResult.URL r = providerURL \<and> BenchmarkResult.Method r = G"
    using ls by (auto simp: sent_results_def)
qed

lemma arrival_order_set: "arrival_order us rs \<Longrightarrow> set rs = set (sent_results us)"
  by (metis arrival_order_def set_mset_mset)

lemma arrival_order_length: "arrival_order us rs \<Longrightarrow> length rs = length (sent_results us)"
  by (metis arrival_order_def size_mset)

lemma loop_indices_0_2: "loop_indices 0 2 = [0, 1]"
  by (simp add: loop_indices.simps [of 0 2] loop_indices.simps [of 1 2]
      loop_indices.simps [of 2 2] word_sless_alt)

lemma example_envs_succeeded:
  "\<not> succeeded (calls (example_envs 0) j)"
  "succeeded (calls (example_envs 1) j)"
  by (simp_all add: example_envs_def succeeded_def performRequest_def ok_call_def run_trace_def
      trace_init_def Let_def word_sless_alt)

lemma example_launch:
  "StartTest_launch ''u'' 10 2 [''k''] ''getAccountInfo'' example_envs =
     Inr ([\<lparr>run_params = (''k'', [(''encoding'', ''jsonParsed''), (''commitment'', ''finalized'')]),
            run_client = 0, run_limiter = Some 1, sent = []\<rparr>,
           \<lparr>run_params = (''k'', [(''encoding'', ''jsonParsed''), (''commitment'', ''finalized'')]),
            run_client = 0, run_limiter = Some 2,
            sent = [benchmarkMethod ''u'' ''getAccountInfo''
                      (''k'', [(''encoding'', ''jsonParsed''), (''commitment'', ''finalized'')])
                      (calls (example_envs 1))]\<rparr>],
          [HTTPClient False, Limiter 10 1, Limiter 10 1])"
proof -
  have m: "\<not> marshalErr (example_envs i)" for i by (simp add: example_envs_def)
  have r: "go_rem 0 1 = 0" "go_rem 1 1 = 0"
    by (simp_all add: go_rem_def signed_modulo_int_def)
  show ?thesis
    by (simp add: StartTest_launch_def new_object_def loop_indices_0_2 run_unit_def Let_def m r
        benchmarkMethod_count example_envs_succeeded)
qed

lemma sint_of_small_unat:
  assumes "unat (w :: go_uint) < 2 ^ 63"
  shows "sint w = int (unat w)"
proof -
  have "sint (word_of_nat (unat w) :: go_int) = int (unat w)"
    by (rule sint_word_of_nat_small [OF assms])
  then show ?thesis by simp
qed

lemma nth_values_10:
  assumes "length xs = 10"
  shows "xs = [xs ! 0, xs ! 1, xs ! 2, xs ! 3, xs ! 4, xs ! 5, xs ! 6, xs ! 7, xs ! 8, xs ! 9]"
proof (rule nth_equalityI)
  show "length xs =
      length [xs ! 0, xs ! 1, xs ! 2, xs ! 3, xs ! 4, xs ! 5, xs ! 6, xs ! 7, xs ! 8, xs ! 9]"
    using assms by simp
next
  fix i
  assume "i < length xs"
  then have "i < 10" using assms by simp
  then have "i \<in> {0, 1, 2, 3, 4, 5, 6, 7, 8, 9}" by auto
  then show "xs ! i =
      [xs ! 0, xs ! 1, xs ! 2, xs ! 3, xs ! 4, xs ! 5, xs ! 6, xs ! 7, xs ! 8, xs ! 9] ! i"
    by auto
qed

text \<open>
  C1. The claim is that all goroutines use one rate limiter and one HTTP client. On two
  requests the two goroutines do share the client (object 0), but each has made a limiter
  of its own (objects 1 and 2): \<^verbatim>\<open>rate.NewLimiter\<close> is called inside the goroutine.
\<close>

theorem StartTest_limiter_per_unit:
  "\<exists>u0 u1 h.
     StartTest_launch ''u'' 10 2 [''k''] ''getAccountInfo'' example_envs = Inr ([u0, u1], h) \<and>
     run_client u0 = 0 \<and> run_client u1 = 0 \<and>
     run_limiter u0 = Some 1 \<and> run_limiter u1 = Some 2 \<and>
     run_limiter u0 \<noteq> run_limiter u1 \<and>
     h = [HTTPClient False, Limiter 10 1, Limiter 10 1]"
  by (simp add: example_launch)

text \<open>
  C3. A goroutine none of whose attempts succeeds gets a result with
  \<^verbatim>\<open>RequestsCount\<close> zero and sends nothing on the channel; and whatever the goroutines
  do and in whatever order their results arrive, no result that reaches the receiving
  loop has a zero count.
\<close>

theorem unit_without_success_sends_nothing:
  "((\<forall>i \<in> set (loop_indices 0 reqPerMethod). \<not> succeeded (calls env i)) \<longrightarrow>
      BenchmarkResult.RequestsCount (benchmarkMethod url G params (calls env)) = 0 \<and>
      (\<forall>u h'. run_unit client rateLimit G url keys idx env h = Inr (u, h') \<longrightarrow> sent u = [])) \<and>
   (\<forall>us h' rs.
      StartTest_launch providerURL rateLimit totalRequests AccountKeys G envs = Inr (us, h') \<longrightarrow>
      arrival_order us rs \<longrightarrow>
      (\<forall>r \<in> set rs. BenchmarkResult.RequestsCount r \<noteq> 0))"
proof (intro conjI impI allI)
  assume fail: "\<forall>i \<in> set (loop_indices 0 reqPerMethod). \<not> succeeded (calls env i)"
  then have f0: "\<not> succeeded (calls env 0)" by (simp add: loop_indices_reqPerMethod)
  then show "BenchmarkResult.RequestsCount (benchmarkMethod url G params (calls env)) = 0"
    by (simp add: benchmarkMethod_count)
  fix u h'
  assume "run_unit client rateLimit G url keys idx env h = Inr (u, h')"
  from run_unit_Inr(3) [OF this] f0 show "sent u = []"
    by (simp add: benchmarkMethod_count)
next
  fix us h' rs
  assume l: "StartTest_launch providerURL rateLimit totalRequests AccountKeys G envs = Inr (us, h')"
    and a: "arrival_order us rs"
  show "\<forall>r \<in> set rs. BenchmarkResult.RequestsCount r \<noteq> 0"
    using StartTest_launch_sent(2) [OF l] arrival_order_set [OF a] by auto
qed

theorem unit_without_success_sends_nothing_witness:
  "loop_indices 0 reqPerMethod = [0] \<and>
   \<not> succeeded (calls (example_envs 0) 0) \<and>
   BenchmarkResult.RequestsCount
     (benchmarkMethod ''u'' ''getAccountInfo'' (''k'', []) (calls (example_envs 0))) = 0 \<and>
   (\<exists>u h'. run_unit 0 10 ''getAccountInfo'' ''u'' [''k''] 0 (example_envs 0) [HTTPClient False]
        = Inr (u, h') \<and> sent u = []) \<and>
   (\<exists>us h' r.
      StartTest_launch ''u'' 10 2 [''k''] ''getAccountInfo'' example_envs = Inr (us, h') \<and>
      arrival_order us [r] \<and> BenchmarkResult.RequestsCount r \<noteq> 0)"
proof -
  note main = unit_without_success_sends_nothing
  have fail: "\<forall>i \<in> set (loop_indices 0 reqPerMethod). \<not> succeeded (calls (example_envs 0) i)"
    by (simp add: example_envs_succeeded)
  obtain u h' where
    ru: "run_unit 0 10 ''getAccountInfo'' ''u'' [''k''] 0 (example_envs 0) [HTTPClient False]
        = Inr (u, h')"
    using run_unit_in_range [of 0 "[''k'']" 0 10 "''getAccountInfo''" "''u''" "example_envs 0"
        "[HTTPClient False]"]
    by auto
  from main [where env = "example_envs 0" and url = "''u''" and G = "''getAccountInfo''"
      and params = "(''k'', [])" and client = 0 and rateLimit = 10 and keys = "[''k'']"
      and idx = 0 and h = "[HTTPClient False]"] fail ru
  have a: "BenchmarkResult.RequestsCount
     (benchmarkMethod ''u'' ''getAccountInfo'' (''k'', []) (calls (example_envs 0))) = 0"
    and b: "sent u = []"
    by blast+
  let ?r = "benchmarkMethod ''u'' ''getAccountInfo''
      (''k'', [(''encoding'', ''jsonParsed''), (''commitment'', ''finalized'')])
      (calls (example_envs 1))"
  obtain us h2 where
    l: "StartTest_launch ''u'' 10 2 [''k''] ''getAccountInfo'' example_envs = Inr (us, h2)"
    and s: "sent_results us = [?r]"
    by (simp add: example_launch sent_results_def)
  have ao: "arrival_order us [?r]" by (simp add: arrival_order_def s)
  from main [where G = "''getAccountInfo''" and rateLimit = 10 and providerURL = "''u''"
      and totalRequests = 2 and AccountKeys = "[''k'']" and envs = example_envs] l ao
  have "\<forall>r \<in> set [?r]. BenchmarkResult.RequestsCount r \<noteq> 0"
    by blast
  then have "BenchmarkResult.RequestsCount ?r \<noteq> 0" by simp
  with l ao have "\<exists>us h' r.
      StartTest_launch ''u'' 10 2 [''k''] ''getAccountInfo'' example_envs = Inr (us, h') \<and>
      arrival_order us [r] \<and> BenchmarkResult.RequestsCount r \<noteq> 0"
    by blast
  moreover have "\<not> succeeded (calls (example_envs 0) 0)"
    by (rule example_envs_succeeded)
  moreover note loop_indices_reqPerMethod a
  moreover from ru b have "\<exists>u h'.
      run_unit 0 10 ''getAccountInfo'' ''u'' [''k''] 0 (example_envs 0) [HTTPClient False]
        = Inr (u, h') \<and> sent u = []"
    by blast
  ultimately show ?thesis by (intro conjI)
qed

text \<open>
  C6. With a pool of \<open>P \<ge> 1\<close> account keys (a Go slice, so \<open>P < 2^63\<close>) the loop
  starts one goroutine for each index below the total request count, and the goroutine
  with index \<open>i\<close> is given the key at position \<open>i mod P\<close>. The count is read as a
  signed \<^verbatim>\<open>int\<close>, so a total of \<open>2^63\<close> or more starts none.
\<close>

theorem scheduler_round_robin:
  assumes "1 \<le> length AccountKeys" and "length AccountKeys < 2 ^ 63"
  shows "\<exists>us h.
     StartTest_launch providerURL rateLimit totalRequests AccountKeys GetAccountInfo envs
       = Inr (us, h) \<and>
     int (length us) = max 0 (sint totalRequests) \<and>
     (unat totalRequests < 2 ^ 63 \<longrightarrow> length us = unat totalRequests) \<and>
     (\<forall>i < length us.
        run_params (us ! i) =
          (AccountKeys ! (i mod length AccountKeys),
           [(''encoding'', ''jsonParsed''), (''commitment'', ''finalized'')]))"
proof -
  from launch_ok [OF assms loop_indices_nonneg, of 0 rateLimit GetAccountInfo providerURL envs
      totalRequests "[HTTPClient False]"]
  obtain us h where
    l: "launch 0 rateLimit GetAccountInfo providerURL AccountKeys envs
          (loop_indices 0 totalRequests) [HTTPClient False] = Inr (us, h)"
    and len: "length us = length (loop_indices 0 totalRequests)"
    and par: "\<forall>j < length (loop_indices 0 totalRequests).
        run_params (us ! j) =
          (AccountKeys ! (nat (sint (loop_indices 0 totalRequests ! j)) mod length AccountKeys),
           [(''encoding'', ''jsonParsed''), (''commitment'', ''finalized'')])"
    by blast
  have "StartTest_launch providerURL rateLimit totalRequests AccountKeys GetAccountInfo envs
       = Inr (us, h)"
    using l by (simp add: StartTest_launch_def new_object_def)
  moreover have "int (length us) = max 0 (sint totalRequests)"
    by (simp add: len length_loop_indices_0)
  moreover have "length us = unat totalRequests" if "unat totalRequests < 2 ^ 63"
    by (simp add: len length_loop_indices_0 sint_of_small_unat [OF that])
  moreover have "\<forall>i < length us. run_params (us ! i) =
          (AccountKeys ! (i mod length AccountKeys),
           [(''encoding'', ''jsonParsed''), (''commitment'', ''finalized'')])"
    using par by (simp add: len sint_loop_indices_nth)
  ultimately show ?thesis by blast
qed

theorem scheduler_round_robin_witness:
  "1 \<le> length [''p0'', ''p1'', ''p2'', ''p3''] \<and>
   length [''p0'', ''p1'', ''p2'', ''p3''] < (2 :: nat) ^ 63 \<and>
   (\<exists>us h.
      StartTest_launch ''u'' 10 10 [''p0'', ''p1'', ''p2'', ''p3''] ''getAccountInfo'' example_envs
        = Inr (us, h) \<and>
      map (\<lambda>u. fst (run_params u)) us =
        [''p0'', ''p1'', ''p2'', ''p3'', ''p0'', ''p1'', ''p2'', ''p3'', ''p0'', ''p1''])"
proof -
  have a: "1 \<le> length [''p0'', ''p1'', ''p2'', ''p3'']" by simp
  have b: "length [''p0'', ''p1'', ''p2'', ''p3''] < (2 :: nat) ^ 63" by simp
  from scheduler_round_robin [OF a b, of "''u''" 10 10 "''getAccountInfo''" example_envs]
  obtain us h where
    l: "StartTest_launch ''u'' 10 10 [''p0'', ''p1'', ''p2'', ''p3''] ''getAccountInfo'' example_envs
        = Inr (us, h)"
    and len: "int (length us) = max 0 (sint (10 :: go_uint))"
    and par: "\<forall>i < length us. run_params (us ! i) =
          ([''p0'', ''p1'', ''p2'', ''p3''] ! (i mod length [''p0'', ''p1'', ''p2'', ''p3'']),
           [(''encoding'', ''jsonParsed''), (''commitment'', ''finalized'')])"
    by blast
  from len have len10: "length us = 10" by simp
  let ?ps = "map (\<lambda>u. fst (run_params u)) us"
  have "length ?ps = 10" using len10 by simp
  from nth_values_10 [OF this]
  have "?ps = [?ps ! 0, ?ps ! 1, ?ps ! 2, ?ps ! 3, ?ps ! 4, ?ps ! 5, ?ps ! 6, ?ps ! 7, ?ps ! 8, ?ps ! 9]" .
  also have "\<dots> = [''p0'', ''p1'', ''p2'', ''p3'', ''p0'', ''p1'', ''p2'', ''p3'', ''p0'', ''p1'']"
    using par len10 by simp
  finally have m: "?ps =
      [''p0'', ''p1'', ''p2'', ''p3'', ''p0'', ''p1'', ''p2'', ''p3'', ''p0'', ''p1'']" .
  show ?thesis
    by (intro conjI exI [of _ us] exI [of _ h]) (rule a b l m)+
qed

section \<open>The aggregator\<close>

lemma distinct_merge_result:
  "distinct (map fst m) \<Longrightarrow> distinct (map fst (merge_result m r))"
  by (simp add: merge_result_def Let_def distinct_update split: option.splits)

lemma map_of_merge_result:
  "map_of (merge_result m r) k =
     (if k = result_key r
      then Some (case map_of m k of None \<Rightarrow> seed_aggregate r | Some a \<Rightarrow> merge_into a r)
      else map_of m k)"
  by (simp add: merge_result_def Let_def update_conv' split: option.splits)

lemma aggregate_snoc: "aggregate (rs @ [r]) = merge_result (aggregate rs) r"
  by (simp add: aggregate_def)

lemma distinct_aggregate: "distinct (map fst (aggregate rs))"
  by (induction rs rule: rev_induct) (simp_all add: aggregate_snoc distinct_merge_result, simp add: aggregate_def)

lemma dom_aggregate: "dom (map_of (aggregate rs)) = result_key ` set rs"
proof (induction rs rule: rev_induct)
  case Nil
  then show ?case by (simp add: aggregate_def)
next
  case (snoc r rs)
  have "dom (map_of (merge_result (aggregate rs) r)) = insert (result_key r) (dom (map_of (aggregate rs)))"
    by (auto simp: map_of_merge_result dom_def)
  then show ?case by (simp add: aggregate_snoc snoc.IH)
qed

lemma aggregate_None_iff:
  "map_of (aggregate rs) k = None \<longleftrightarrow> (\<forall>r \<in> set rs. result_key r \<noteq> k)"
proof -
  have "map_of (aggregate rs) k = None \<longleftrightarrow> k \<notin> dom (map_of (aggregate rs))"
    by (simp add: domIff)
  also have "\<dots> \<longleftrightarrow> k \<notin> result_key ` set rs" by (simp only: dom_aggregate)
  also have "\<dots> \<longleftrightarrow> (\<forall>r \<in> set rs. result_key r \<noteq> k)" by auto
  finally show ?thesis .
qed

lemma keys_aggregate: "set (map fst (aggregate rs)) = result_key ` set rs"
  using dom_aggregate [of rs] by (simp add: dom_map_of_conv_image_fst)

lemma key_group_snoc:
  "key_group k (rs @ [r]) = (if result_key r = k then key_group k rs @ [r] else key_group k rs)"
  by (simp add: key_group_def)

lemma key_group_empty_iff: "key_group k rs = [] \<longleftrightarrow> (\<forall>r \<in> set rs. result_key r \<noteq> k)"
  by (auto simp: key_group_def filter_empty_conv)

lemma merge_into_sel:
  "TotalTime (merge_into a r) = TotalTime a + BenchmarkResult.TotalTime r"
  "RequestsCount (merge_into a r) = RequestsCount a + BenchmarkResult.RequestsCount r"
  "AggregateBenchmarkResult.URL (merge_into a r) = AggregateBenchmarkResult.URL a"
  "AggregateBenchmarkResult.Method (merge_into a r) = AggregateBenchmarkResult.Method a"
  by (simp_all add: merge_into_def)

lemma merge_into_phase:
  "ph \<in> set phases \<Longrightarrow>
     ph (AggregateTimings (merge_into a r)) = ph (AggregateTimings a) + ph (TotalTimings r) \<and>
     ph (MinTimings (merge_into a r)) =
       minDuration (ph (MinTimings a)) (ph (BenchmarkResult.MinTimings r)) \<and>
     ph (MaxTimings (merge_into a r)) =
       maxDuration (ph (MaxTimings a)) (ph (BenchmarkResult.MaxTimings r))"
  by (auto simp: merge_into_def phases_def)

lemma seed_aggregate_sel:
  "TotalTime (seed_aggregate r) = BenchmarkResult.TotalTime r"
  "RequestsCount (seed_aggregate r) = BenchmarkResult.RequestsCount r"
  "AggregateTimings (seed_aggregate r) = TotalTimings r"
  "MinTimings (seed_aggregate r) = BenchmarkResult.MinTimings r"
  "MaxTimings (seed_aggregate r) = BenchmarkResult.MaxTimings r"
  "AggregateBenchmarkResult.URL (seed_aggregate r) = BenchmarkResult.URL r"
  "AggregateBenchmarkResult.Method (seed_aggregate r) = BenchmarkResult.Method r"
  by (simp_all add: seed_aggregate_def)

lemma aggregate_sums:
  "map_of (aggregate rs) k = Some a \<Longrightarrow>
     RequestsCount a = sum_list (map BenchmarkResult.RequestsCount (key_group k rs)) \<and>
     TotalTime a = sum_list (map BenchmarkResult.TotalTime (key_group k rs)) \<and>
     (\<forall>ph \<in> set phases.
        ph (AggregateTimings a) = sum_list (map (\<lambda>r. ph (TotalTimings r)) (key_group k rs)))"
proof (induction rs arbitrary: a rule: rev_induct)
  case Nil
  then show ?case by (simp add: aggregate_def)
next
  case (snoc r rs)
  show ?case
  proof (cases "result_key r = k")
    case False
    with snoc.prems have "map_of (aggregate rs) k = Some a"
      by (simp add: aggregate_snoc map_of_merge_result)
    from snoc.IH [OF this] False show ?thesis by (simp add: key_group_snoc)
  next
    case True
    show ?thesis
    proof (cases "map_of (aggregate rs) k")
      case None
      then have "key_group k rs = []"
        by (simp add: aggregate_None_iff key_group_empty_iff)
      moreover from snoc.prems None True have "a = seed_aggregate r"
        by (simp add: aggregate_snoc map_of_merge_result)
      ultimately show ?thesis using True
        by (simp add: key_group_snoc seed_aggregate_sel)
    next
      case (Some b)
      with snoc.prems True have a: "a = merge_into b r"
        by (simp add: aggregate_snoc map_of_merge_result)
      from snoc.IH [OF Some] show ?thesis using True
        by (simp add: a key_group_snoc merge_into_sel merge_into_phase)
    qed
  qed
qed


lemma example_first_value:
  "example_first =
     \<lparr>BenchmarkResult.URL = ''u'', Method = ''m'',
      MinTimings = \<lparr>DNSLookup = 1, TCPConnection = 1, TLSHandshake = 3, ServerProcessing = 2\<rparr>,
      MaxTimings = \<lparr>DNSLookup = 3, TCPConnection = 2, TLSHandshake = 5, ServerProcessing = 4\<rparr>,
      AverageTimings = \<lparr>DNSLookup = 2, TCPConnection = 1, TLSHandshake = 4, ServerProcessing = 3\<rparr>,
      TotalTimings = \<lparr>DNSLookup = 4, TCPConnection = 3, TLSHandshake = 8, ServerProcessing = 6\<rparr>,
      TotalTime = 25, RequestsCount = 2, Params = (''k'', [])\<rparr>"
  unfolding example_first_def by (rule example_result)

lemma example_second_value:
  "example_second =
     \<lparr>BenchmarkResult.URL = ''u'', Method = ''m'',
      MinTimings = \<lparr>DNSLookup = 0, TCPConnection = 2, TLSHandshake = 0, ServerProcessing = 5\<rparr>,
      MaxTimings = \<lparr>DNSLookup = 0, TCPConnection = 2, TLSHandshake = 0, ServerProcessing = 5\<rparr>,
      AverageTimings = \<lparr>DNSLookup = 0, TCPConnection = 2, TLSHandshake = 0, ServerProcessing = 5\<rparr>,
      TotalTimings = \<lparr>DNSLookup = 0, TCPConnection = 2, TLSHandshake = 0, ServerProcessing = 5\<rparr>,
      TotalTime = 9, RequestsCount = 1, Params = (''k'', [])\<rparr>"
  by (simp add: example_second_def benchmarkMethod_def benchmarkRepeat_def
      loop_indices_reqPerMethod attempt_def example_envs_def performRequest_def ok_call_def
      run_trace_def trace_init_def bench_init_def zero_timings_def go_div_def word_sless_alt
      signed_divide_int_def Let_def)

lemma example_keys:
  "result_key example_first = ''u_m''" "result_key example_second = ''u_m''"
  by (simp_all add: result_key_def example_first_value example_second_value)

text \<open>
  C7. When a result arrives, the aggregates of the other keys stay as they are. If it is
  the first result of its key (the string \<^verbatim>\<open>URL_Method\<close> built from endpoint and
  method), the aggregate of the key is made from it as it is: sums from its totals,
  minimum and maximum from its minimum and maximum. If the key has an aggregate already,
  total time, count and the sum of each phase grow by addition, and the minimum and
  maximum of each phase become the smaller of the two minima and the larger of the two
  maxima; endpoint and method stay.
\<close>

theorem aggregator_seeds_then_merges:
  "let before = aggregate rs;
       after = aggregate (rs @ [result]);
       key = result_key result
   in (\<forall>k. k \<noteq> key \<longrightarrow> map_of after k = map_of before k) \<and>
      ((\<forall>r \<in> set rs. result_key r \<noteq> key) \<longrightarrow>
         map_of before key = None \<and>
         map_of after key =
           Some \<lparr>AggregateBenchmarkResult.URL = BenchmarkResult.URL result,
                 Method = BenchmarkResult.Method result,
                 TotalTime = BenchmarkResult.TotalTime result,
                 RequestsCount = BenchmarkResult.RequestsCount result,
                 AggregateTimings = TotalTimings result,
                 MaxTimings = BenchmarkResult.MaxTimings result,
                 MinTimings = BenchmarkResult.MinTimings result\<rparr>) \<and>
      ((\<exists>r \<in> set rs. result_key r = key) \<longrightarrow>
         (\<exists>a a'. map_of before key = Some a \<and> map_of after key = Some a' \<and>
            AggregateBenchmarkResult.URL a' = AggregateBenchmarkResult.URL a \<and>
            AggregateBenchmarkResult.Method a' = AggregateBenchmarkResult.Method a \<and>
            TotalTime a' = TotalTime a + BenchmarkResult.TotalTime result \<and>
            RequestsCount a' = RequestsCount a + BenchmarkResult.RequestsCount result \<and>
            (\<forall>ph \<in> set phases.
               ph (AggregateTimings a') = ph (AggregateTimings a) + ph (TotalTimings result) \<and>
               sint (ph (MinTimings a')) =
                 min (sint (ph (MinTimings a))) (sint (ph (BenchmarkResult.MinTimings result))) \<and>
               sint (ph (MaxTimings a')) =
                 max (sint (ph (MaxTimings a))) (sint (ph (BenchmarkResult.MaxTimings result))))))"
proof -
  let ?key = "result_key result"
  have other: "\<forall>k. k \<noteq> ?key \<longrightarrow> map_of (aggregate (rs @ [result])) k = map_of (aggregate rs) k"
    by (simp add: aggregate_snoc map_of_merge_result)
  have seed: "map_of (aggregate rs) ?key = None \<and>
         map_of (aggregate (rs @ [result])) ?key =
           Some \<lparr>AggregateBenchmarkResult.URL = BenchmarkResult.URL result,
                 Method = BenchmarkResult.Method result,
                 TotalTime = BenchmarkResult.TotalTime result,
                 RequestsCount = BenchmarkResult.RequestsCount result,
                 AggregateTimings = TotalTimings result,
                 MaxTimings = BenchmarkResult.MaxTimings result,
                 MinTimings = BenchmarkResult.MinTimings result\<rparr>"
    if "\<forall>r \<in> set rs. result_key r \<noteq> ?key"
  proof -
    from that have "map_of (aggregate rs) ?key = None" by (simp add: aggregate_None_iff)
    then show ?thesis
      by (simp add: aggregate_snoc map_of_merge_result seed_aggregate_def)
  qed
  have later: "\<exists>a a'. map_of (aggregate rs) ?key = Some a \<and>
            map_of (aggregate (rs @ [result])) ?key = Some a' \<and>
            AggregateBenchmarkResult.URL a' = AggregateBenchmarkResult.URL a \<and>
            AggregateBenchmarkResult.Method a' = AggregateBenchmarkResult.Method a \<and>
            TotalTime a' = TotalTime a + BenchmarkResult.TotalTime result \<and>
            RequestsCount a' = RequestsCount a + BenchmarkResult.RequestsCount result \<and>
            (\<forall>ph \<in> set phases.
               ph (AggregateTimings a') = ph (AggregateTimings a) + ph (TotalTimings result) \<and>
               sint (ph (MinTimings a')) =
                 min (sint (ph (MinTimings a))) (sint (ph (BenchmarkResult.MinTimings result))) \<and>
               sint (ph (MaxTimings a')) =
                 max (sint (ph (MaxTimings a))) (sint (ph (BenchmarkResult.MaxTimings result))))"
    if "\<exists>r \<in> set rs. result_key r = ?key"
  proof -
    from that have "map_of (aggregate rs) ?key \<noteq> None" by (simp add: aggregate_None_iff)
    then obtain a where a: "map_of (aggregate rs) ?key = Some a" by auto
    then have a': "map_of (aggregate (rs @ [result])) ?key = Some (merge_into a result)"
      by (simp add: aggregate_snoc map_of_merge_result)
    show ?thesis
      by (intro exI [of _ a] exI [of _ "merge_into a result"] conjI ballI a a')
        (simp_all add: merge_into_sel merge_into_phase sint_minDuration sint_maxDuration)
  qed
  show ?thesis
    unfolding Let_def using other seed later by blast
qed


theorem aggregator_seeds_then_merges_witness:
  "map_of (aggregate []) (result_key example_first) = None \<and>
   map_of (aggregate ([] @ [example_first])) (result_key example_first) =
     Some \<lparr>AggregateBenchmarkResult.URL = ''u'', Method = ''m'', TotalTime = 25,
           RequestsCount = 2,
           AggregateTimings =
             \<lparr>DNSLookup = 4, TCPConnection = 3, TLSHandshake = 8, ServerProcessing = 6\<rparr>,
           MaxTimings =
             \<lparr>DNSLookup = 3, TCPConnection = 2, TLSHandshake = 5, ServerProcessing = 4\<rparr>,
           MinTimings =
             \<lparr>DNSLookup = 1, TCPConnection = 1, TLSHandshake = 3, ServerProcessing = 2\<rparr>\<rparr> \<and>
   (\<exists>a a'.
      map_of (aggregate [example_first]) (result_key example_second) = Some a \<and>
      map_of (aggregate ([example_first] @ [example_second])) (result_key example_second) =
        Some a' \<and>
      RequestsCount a = 2 \<and> RequestsCount a' = 3 \<and> TotalTime a' = 34 \<and>
      TCPConnection (AggregateTimings a') = 5 \<and>
      sint (TCPConnection (MinTimings a')) = 1 \<and>
      sint (ServerProcessing (MaxTimings a')) = 5) \<and>
   map_of (aggregate ([example_first] @ [example_second])) ''other'' =
     map_of (aggregate [example_first]) ''other''"
proof -
  note main = aggregator_seeds_then_merges
  let ?seed = "\<lparr>AggregateBenchmarkResult.URL = ''u'', Method = ''m'', TotalTime = 25,
           RequestsCount = 2,
           AggregateTimings =
             \<lparr>DNSLookup = 4, TCPConnection = 3, TLSHandshake = 8, ServerProcessing = 6\<rparr>,
           MaxTimings =
             \<lparr>DNSLookup = 3, TCPConnection = 2, TLSHandshake = 5, ServerProcessing = 4\<rparr>,
           MinTimings =
             \<lparr>DNSLookup = 1, TCPConnection = 1, TLSHandshake = 3, ServerProcessing = 2\<rparr>\<rparr>"
  have "\<forall>r \<in> set []. result_key r \<noteq> result_key example_first" by simp
  with main [of "[]" example_first]
  have s0: "map_of (aggregate []) (result_key example_first) = None"
    and s1: "map_of (aggregate ([] @ [example_first])) (result_key example_first) =
      Some \<lparr>AggregateBenchmarkResult.URL = BenchmarkResult.URL example_first,
            Method = BenchmarkResult.Method example_first,
            TotalTime = BenchmarkResult.TotalTime example_first,
            RequestsCount = BenchmarkResult.RequestsCount example_first,
            AggregateTimings = TotalTimings example_first,
            MaxTimings = BenchmarkResult.MaxTimings example_first,
            MinTimings = BenchmarkResult.MinTimings example_first\<rparr>"
    unfolding Let_def by blast+
  have s1': "map_of (aggregate ([] @ [example_first])) (result_key example_first) = Some ?seed"
    unfolding s1 by (simp add: example_first_value)
  have ph: "TCPConnection \<in> set phases" "ServerProcessing \<in> set phases"
    by (simp_all add: phases_def)
  have "\<exists>r \<in> set [example_first]. result_key r = result_key example_second"
    by (simp add: example_keys)
  with main [of "[example_first]" example_second]
  obtain a a' where
    a: "map_of (aggregate [example_first]) (result_key example_second) = Some a"
    and a': "map_of (aggregate ([example_first] @ [example_second])) (result_key example_second)
        = Some a'"
    and tt: "TotalTime a' = TotalTime a + BenchmarkResult.TotalTime example_second"
    and rc: "RequestsCount a' = RequestsCount a + BenchmarkResult.RequestsCount example_second"
    and phs: "\<forall>ph \<in> set phases.
        ph (AggregateTimings a') = ph (AggregateTimings a) + ph (TotalTimings example_second) \<and>
        sint (ph (MinTimings a')) =
          min (sint (ph (MinTimings a))) (sint (ph (BenchmarkResult.MinTimings example_second))) \<and>
        sint (ph (MaxTimings a')) =
          max (sint (ph (MaxTimings a))) (sint (ph (BenchmarkResult.MaxTimings example_second)))"
    unfolding Let_def by blast
  from a s1' have av: "a = ?seed" by (simp add: example_keys)
  have v1: "RequestsCount a = 2" by (simp add: av)
  have v2: "RequestsCount a' = 3" unfolding rc by (simp add: av example_second_value)
  have v3: "TotalTime a' = 34" unfolding tt by (simp add: av example_second_value)
  have v4: "TCPConnection (AggregateTimings a') = 5"
    using bspec [OF phs ph(1)] by (simp add: av example_second_value)
  have v5: "sint (TCPConnection (MinTimings a')) = 1"
    using bspec [OF phs ph(1)] by (simp add: av example_second_value)
  have v6: "sint (ServerProcessing (MaxTimings a')) = 5"
    using bspec [OF phs ph(2)] by (simp add: av example_second_value)
  have ex: "\<exists>a a'.
      map_of (aggregate [example_first]) (result_key example_second) = Some a \<and>
      map_of (aggregate ([example_first] @ [example_second])) (result_key example_second) =
        Some a' \<and>
      RequestsCount a = 2 \<and> RequestsCount a' = 3 \<and> TotalTime a' = 34 \<and>
      TCPConnection (AggregateTimings a') = 5 \<and>
      sint (TCPConnection (MinTimings a')) = 1 \<and>
      sint (ServerProcessing (MaxTimings a')) = 5"
    using a a' v1 v2 v3 v4 v5 v6 by blast
  have "''other'' \<noteq> result_key example_second" by (simp add: example_keys)
  with main [of "[example_first]" example_second]
  have other: "map_of (aggregate ([example_first] @ [example_second])) ''other'' =
     map_of (aggregate [example_first]) ''other''"
    unfolding Let_def by blast
  show ?thesis
    by (intro conjI) (rule s0 s1' ex other)+
qed

section \<open>Order of arrival and the last loop\<close>

lemma sint_eqI: "sint (v :: 64 word) = sint w \<Longrightarrow> v = w"
  by (rule signed_word_eqI)

lemma minDuration_commute: "minDuration a b = minDuration b a"
  by (rule sint_eqI) (simp add: sint_minDuration min.commute)

lemma minDuration_assoc: "minDuration (minDuration a b) c = minDuration a (minDuration b c)"
  by (rule sint_eqI) (simp add: sint_minDuration min.assoc)

lemma maxDuration_commute: "maxDuration a b = maxDuration b a"
  by (rule sint_eqI) (simp add: sint_maxDuration max.commute)

lemma maxDuration_assoc: "maxDuration (maxDuration a b) c = maxDuration a (maxDuration b c)"
  by (rule sint_eqI) (simp add: sint_maxDuration max.assoc)

lemma minDuration_left_commute:
  "minDuration (minDuration a b) c = minDuration (minDuration a c) b"
  by (metis minDuration_assoc minDuration_commute)

lemma maxDuration_left_commute:
  "maxDuration (maxDuration a b) c = maxDuration (maxDuration a c) b"
  by (metis maxDuration_assoc maxDuration_commute)

lemma timings_eqI:
  "\<forall>ph \<in> set phases. ph x = ph y \<Longrightarrow> x = y"
  by (cases x, cases y) (simp add: phases_def)

lemma aggregate_eqI:
  fixes a b :: AggregateBenchmarkResult
  assumes "AggregateBenchmarkResult.URL a = AggregateBenchmarkResult.URL b"
    and "AggregateBenchmarkResult.Method a = AggregateBenchmarkResult.Method b"
    and "TotalTime a = TotalTime b"
    and "RequestsCount a = RequestsCount b"
    and "\<forall>ph \<in> set phases. ph (AggregateTimings a) = ph (AggregateTimings b)"
    and "\<forall>ph \<in> set phases. ph (MinTimings a) = ph (MinTimings b)"
    and "\<forall>ph \<in> set phases. ph (MaxTimings a) = ph (MaxTimings b)"
  shows "a = b"
  using assms(1-4) timings_eqI [OF assms(5)] timings_eqI [OF assms(6)] timings_eqI [OF assms(7)]
  by (cases a, cases b) simp

lemma merge_into_commute:
  "merge_into (merge_into a r1) r2 = merge_into (merge_into a r2) r1"
proof (rule aggregate_eqI)
  show "\<forall>ph \<in> set phases.
      ph (MinTimings (merge_into (merge_into a r1) r2)) =
      ph (MinTimings (merge_into (merge_into a r2) r1))"
    by (simp add: merge_into_phase minDuration_left_commute)
  show "\<forall>ph \<in> set phases.
      ph (MaxTimings (merge_into (merge_into a r1) r2)) =
      ph (MaxTimings (merge_into (merge_into a r2) r1))"
    by (simp add: merge_into_phase maxDuration_left_commute)
qed (simp_all add: merge_into_sel merge_into_phase add.commute add.left_commute add.assoc)

lemma numeric_part_merge_into: "numeric_part (merge_into a r) = merge_into (numeric_part a) r"
  by (simp add: numeric_part_def merge_into_def)

lemma merge_into_seed_commute:
  "merge_into (numeric_part (seed_aggregate r1)) r2 =
   merge_into (numeric_part (seed_aggregate r2)) r1"
proof (rule aggregate_eqI)
  show "\<forall>ph \<in> set phases.
      ph (MinTimings (merge_into (numeric_part (seed_aggregate r1)) r2)) =
      ph (MinTimings (merge_into (numeric_part (seed_aggregate r2)) r1))"
    by (simp add: merge_into_phase numeric_part_def seed_aggregate_sel minDuration_commute)
  show "\<forall>ph \<in> set phases.
      ph (MaxTimings (merge_into (numeric_part (seed_aggregate r1)) r2)) =
      ph (MaxTimings (merge_into (numeric_part (seed_aggregate r2)) r1))"
    by (simp add: merge_into_phase numeric_part_def seed_aggregate_sel maxDuration_commute)
qed (simp_all add: merge_into_sel merge_into_phase numeric_part_def seed_aggregate_sel add.commute)

lemma absorb_commute: "absorb k r1 \<circ> absorb k r2 = absorb k r2 \<circ> absorb k r1"
proof
  fix s
  show "(absorb k r1 \<circ> absorb k r2) s = (absorb k r2 \<circ> absorb k r1) s"
  proof (cases s)
    case None
    then show ?thesis by (simp add: absorb_def merge_into_seed_commute)
  next
    case (Some a)
    then show ?thesis by (simp add: absorb_def merge_into_commute)
  qed
qed

lemma absorb_merge_result:
  "map_option numeric_part (map_of (merge_result m r) k) =
     absorb k r (map_option numeric_part (map_of m k))"
  by (cases "map_of m k")
    (auto simp: map_of_merge_result absorb_def numeric_part_merge_into)

lemma absorb_foldl:
  "map_option numeric_part (map_of (foldl merge_result m rs) k) =
     fold (absorb k) rs (map_option numeric_part (map_of m k))"
  by (induction rs arbitrary: m) (simp_all add: absorb_merge_result)

lemma aggregate_numeric_part_mset:
  assumes "mset rs = mset rs'"
  shows "map_option numeric_part (map_of (aggregate rs) k) =
         map_option numeric_part (map_of (aggregate rs') k)"
proof -
  have "fold (absorb k) rs = fold (absorb k) rs'"
    by (rule fold_multiset_equiv [OF _ assms]) (rule absorb_commute)
  then show ?thesis by (simp add: aggregate_def absorb_foldl)
qed

lemma numeric_part_eqD:
  "numeric_part a = numeric_part b \<Longrightarrow>
     MinTimings a = MinTimings b \<and> MaxTimings a = MaxTimings b \<and>
     AggregateTimings a = AggregateTimings b \<and> TotalTime a = TotalTime b \<and>
     RequestsCount a = RequestsCount b"
  by (cases a, cases b) (simp add: numeric_part_def)

lemma example_aggregate_12:
  "aggregate [example_first, example_second] =
     [(''u_m'',
       \<lparr>AggregateBenchmarkResult.URL = ''u'', Method = ''m'', TotalTime = 34, RequestsCount = 3,
        AggregateTimings =
          \<lparr>DNSLookup = 4, TCPConnection = 5, TLSHandshake = 8, ServerProcessing = 11\<rparr>,
        MaxTimings =
          \<lparr>DNSLookup = 3, TCPConnection = 2, TLSHandshake = 5, ServerProcessing = 5\<rparr>,
        MinTimings =
          \<lparr>DNSLookup = 0, TCPConnection = 1, TLSHandshake = 0, ServerProcessing = 2\<rparr>\<rparr>)]"
  by (simp add: aggregate_def merge_result_def example_keys)
    (simp add: example_first_value example_second_value seed_aggregate_def merge_into_def
      minDuration_def maxDuration_def word_sless_alt)

lemma example_aggregate_21:
  "aggregate [example_second, example_first] =
     [(''u_m'',
       \<lparr>AggregateBenchmarkResult.URL = ''u'', Method = ''m'', TotalTime = 34, RequestsCount = 3,
        AggregateTimings =
          \<lparr>DNSLookup = 4, TCPConnection = 5, TLSHandshake = 8, ServerProcessing = 11\<rparr>,
        MaxTimings =
          \<lparr>DNSLookup = 3, TCPConnection = 2, TLSHandshake = 5, ServerProcessing = 5\<rparr>,
        MinTimings =
          \<lparr>DNSLookup = 0, TCPConnection = 1, TLSHandshake = 0, ServerProcessing = 2\<rparr>\<rparr>)]"
  by (simp add: aggregate_def merge_result_def example_keys)
    (simp add: example_first_value example_second_value seed_aggregate_def merge_into_def
      minDuration_def maxDuration_def word_sless_alt)

text \<open>
  C8. If the same results arrive in another order, every key has an aggregate in the one
  run exactly when it has one in the other, and the two agree in minimum, maximum and sum
  of every phase, in total time and in count. Adding two results to an aggregate in
  either order gives the same aggregate, and the minimum and the maximum of two durations
  are commutative and associative.
\<close>

theorem aggregation_order_independent:
  "(mset rs = mset rs' \<longrightarrow>
      (\<forall>k. rel_option
         (\<lambda>a a'. MinTimings a = MinTimings a' \<and> MaxTimings a = MaxTimings a' \<and>
            AggregateTimings a = AggregateTimings a' \<and> TotalTime a = TotalTime a' \<and>
            RequestsCount a = RequestsCount a')
         (map_of (aggregate rs) k) (map_of (aggregate rs') k))) \<and>
   merge_into (merge_into agg r1) r2 = merge_into (merge_into agg r2) r1 \<and>
   minDuration a b = minDuration b a \<and>
   minDuration (minDuration a b) c = minDuration a (minDuration b c) \<and>
   maxDuration a b = maxDuration b a \<and>
   maxDuration (maxDuration a b) c = maxDuration a (maxDuration b c)"
proof (intro conjI impI allI)
  fix k
  assume "mset rs = mset rs'"
  from aggregate_numeric_part_mset [OF this, of k]
  show "rel_option
         (\<lambda>a a'. MinTimings a = MinTimings a' \<and> MaxTimings a = MaxTimings a' \<and>
            AggregateTimings a = AggregateTimings a' \<and> TotalTime a = TotalTime a' \<and>
            RequestsCount a = RequestsCount a')
         (map_of (aggregate rs) k) (map_of (aggregate rs') k)"
    by (cases "map_of (aggregate rs) k"; cases "map_of (aggregate rs') k")
      (auto dest: numeric_part_eqD)
qed (rule merge_into_commute minDuration_commute minDuration_assoc maxDuration_commute
    maxDuration_assoc)+


theorem aggregation_order_independent_witness:
  "mset [example_first, example_second] = mset [example_second, example_first] \<and>
   (\<exists>a a'.
      map_of (aggregate [example_first, example_second]) ''u_m'' = Some a \<and>
      map_of (aggregate [example_second, example_first]) ''u_m'' = Some a' \<and>
      MinTimings a = MinTimings a' \<and> MaxTimings a = MaxTimings a' \<and>
      AggregateTimings a = AggregateTimings a' \<and> TotalTime a = TotalTime a' \<and>
      RequestsCount a = RequestsCount a' \<and>
      MinTimings a =
        \<lparr>DNSLookup = 0, TCPConnection = 1, TLSHandshake = 0, ServerProcessing = 2\<rparr> \<and>
      AggregateTimings a =
        \<lparr>DNSLookup = 4, TCPConnection = 5, TLSHandshake = 8, ServerProcessing = 11\<rparr>)"
proof -
  have ms: "mset [example_first, example_second] = mset [example_second, example_first]"
    by (simp add: add.commute)
  obtain a where a: "map_of (aggregate [example_first, example_second]) ''u_m'' = Some a"
    and av: "MinTimings a =
        \<lparr>DNSLookup = 0, TCPConnection = 1, TLSHandshake = 0, ServerProcessing = 2\<rparr>"
      "AggregateTimings a =
        \<lparr>DNSLookup = 4, TCPConnection = 5, TLSHandshake = 8, ServerProcessing = 11\<rparr>"
    by (simp add: example_aggregate_12)
  obtain a' where a': "map_of (aggregate [example_second, example_first]) ''u_m'' = Some a'"
    by (simp add: example_aggregate_21)
  from aggregation_order_independent
         [of "[example_first, example_second]" "[example_second, example_first]"] ms
  have "rel_option
         (\<lambda>a a'. MinTimings a = MinTimings a' \<and> MaxTimings a = MaxTimings a' \<and>
            AggregateTimings a = AggregateTimings a' \<and> TotalTime a = TotalTime a' \<and>
            RequestsCount a = RequestsCount a')
         (map_of (aggregate [example_first, example_second]) ''u_m'')
         (map_of (aggregate [example_second, example_first]) ''u_m'')"
    by blast
  then have "MinTimings a = MinTimings a' \<and> MaxTimings a = MaxTimings a' \<and>
      AggregateTimings a = AggregateTimings a' \<and> TotalTime a = TotalTime a' \<and>
      RequestsCount a = RequestsCount a'"
    by (simp add: a a')
  with ms a a' av show ?thesis by blast
qed

lemma finalize_aggregate_Inr:
  "finalize_aggregate a = Inr a' \<longleftrightarrow>
     RequestsCount a \<noteq> 0 \<and>
     a' = a\<lparr>AggregateTimings :=
            \<lparr>DNSLookup = go_div (DNSLookup (AggregateTimings a)) (RequestsCount a),
             TCPConnection = go_div (TCPConnection (AggregateTimings a)) (RequestsCount a),
             TLSHandshake = go_div (TLSHandshake (AggregateTimings a)) (RequestsCount a),
             ServerProcessing = go_div (ServerProcessing (AggregateTimings a)) (RequestsCount a)\<rparr>\<rparr>"
  by (auto simp: finalize_aggregate_def)

lemma finalize_aggregate_fields:
  assumes "finalize_aggregate a = Inr a'"
  shows "RequestsCount a \<noteq> 0"
    and "AggregateBenchmarkResult.URL a' = AggregateBenchmarkResult.URL a"
    and "AggregateBenchmarkResult.Method a' = AggregateBenchmarkResult.Method a"
    and "TotalTime a' = TotalTime a"
    and "RequestsCount a' = RequestsCount a"
    and "MinTimings a' = MinTimings a"
    and "MaxTimings a' = MaxTimings a"
    and "\<forall>ph \<in> set phases. ph (AggregateTimings a') =
           word_of_int (sint (ph (AggregateTimings a)) sdiv sint (RequestsCount a))"
  using assms by (auto simp: finalize_aggregate_Inr phases_def go_div_def)

lemma finalize_loop_Inr:
  "finalize_loop m = Inr (final, ls) \<Longrightarrow>
     map fst final = map fst m \<and> ls = map (\<lambda>(k, a). TotalLine a) final"
proof (induction m arbitrary: final ls)
  case Nil
  then show ?case by simp
next
  case (Cons e m)
  obtain k a where e: "e = (k, a)" by (cases e)
  from Cons.prems obtain a' final' ls' where
    "finalize_aggregate a = Inr a'" "finalize_loop m = Inr (final', ls')"
    "final = (k, a') # final'" "ls = TotalLine a' # ls'"
    by (auto simp: e split: sum.splits)
  with Cons.IH [of final' ls'] show ?case by (simp add: e)
qed

lemma finalize_loop_map_of:
  "finalize_loop m = Inr (final, ls) \<Longrightarrow> map_of m k = Some a \<Longrightarrow>
     \<exists>a'. finalize_aggregate a = Inr a' \<and> map_of final k = Some a'"
proof (induction m arbitrary: final ls)
  case Nil
  then show ?case by simp
next
  case (Cons e m)
  obtain k0 a0 where e: "e = (k0, a0)" by (cases e)
  from Cons.prems(1) obtain a0' final' ls' where
    f: "finalize_aggregate a0 = Inr a0'" "finalize_loop m = Inr (final', ls')"
    "final = (k0, a0') # final'"
    by (auto simp: e split: sum.splits)
  show ?case
  proof (cases "k = k0")
    case True
    with Cons.prems(2) f show ?thesis by (simp add: e)
  next
    case False
    with Cons.prems(2) have "map_of m k = Some a" by (simp add: e)
    from Cons.IH [OF f(2) this] False f(3) show ?thesis by simp
  qed
qed

lemma finalize_loop_ok:
  "\<forall>(k, a) \<in> set m. RequestsCount a \<noteq> 0 \<Longrightarrow> \<exists>final ls. finalize_loop m = Inr (final, ls)"
proof (induction m)
  case Nil
  then show ?case by simp
next
  case (Cons e m)
  obtain k a where e: "e = (k, a)" by (cases e)
  from Cons.prems have "RequestsCount a \<noteq> 0" by (simp add: e)
  then obtain a' where "finalize_aggregate a = Inr a'" by (simp add: finalize_aggregate_def)
  moreover from Cons obtain final ls where "finalize_loop m = Inr (final, ls)" by auto
  ultimately show ?case by (simp add: e)
qed

lemma example_aggregate_111:
  "aggregate [example_first, example_first, example_first] =
     [(''u_m'',
       \<lparr>AggregateBenchmarkResult.URL = ''u'', Method = ''m'', TotalTime = 75, RequestsCount = 6,
        AggregateTimings =
          \<lparr>DNSLookup = 12, TCPConnection = 9, TLSHandshake = 24, ServerProcessing = 18\<rparr>,
        MaxTimings =
          \<lparr>DNSLookup = 3, TCPConnection = 2, TLSHandshake = 5, ServerProcessing = 4\<rparr>,
        MinTimings =
          \<lparr>DNSLookup = 1, TCPConnection = 1, TLSHandshake = 3, ServerProcessing = 2\<rparr>\<rparr>)]"
  by (simp add: aggregate_def merge_result_def example_keys)
    (simp add: example_first_value seed_aggregate_def merge_into_def
      minDuration_def maxDuration_def word_sless_alt)

lemma example_StartTest_aggregate:
  "StartTest_aggregate [example_first, example_first, example_first] =
     Inr ([ResultLine example_first, ResultLine example_first, ResultLine example_first,
           TotalLine
             \<lparr>AggregateBenchmarkResult.URL = ''u'', Method = ''m'', TotalTime = 75,
              RequestsCount = 6,
              AggregateTimings =
                \<lparr>DNSLookup = 2, TCPConnection = 1, TLSHandshake = 4, ServerProcessing = 3\<rparr>,
              MaxTimings =
                \<lparr>DNSLookup = 3, TCPConnection = 2, TLSHandshake = 5, ServerProcessing = 4\<rparr>,
              MinTimings =
                \<lparr>DNSLookup = 1, TCPConnection = 1, TLSHandshake = 3, ServerProcessing = 2\<rparr>\<rparr>],
          [(''u_m'',
            \<lparr>AggregateBenchmarkResult.URL = ''u'', Method = ''m'', TotalTime = 75,
             RequestsCount = 6,
             AggregateTimings =
               \<lparr>DNSLookup = 2, TCPConnection = 1, TLSHandshake = 4, ServerProcessing = 3\<rparr>,
             MaxTimings =
               \<lparr>DNSLookup = 3, TCPConnection = 2, TLSHandshake = 5, ServerProcessing = 4\<rparr>,
             MinTimings =
               \<lparr>DNSLookup = 1, TCPConnection = 1, TLSHandshake = 3, ServerProcessing = 2\<rparr>\<rparr>)])"
  by (simp add: StartTest_aggregate_def example_aggregate_111 finalize_aggregate_def go_div_def
      signed_divide_int_def)


text \<open>
  C9. When the receiving loop and the last loop have run, the log holds one line for
  every result, in the order of arrival, and after all of them one line for every
  aggregate; the keys of the aggregates are distinct and are the keys of the results.
  For every key the aggregate before the last loop holds the sums over the results of the
  key, and the aggregate after it differs in the timings alone: each phase is that sum
  divided (truncating) by the summed count, divided once.
\<close>

theorem finalization_once_after_all_merges:
  "StartTest_aggregate rs = Inr (lines, final) \<longrightarrow>
     lines = map ResultLine rs @ map (\<lambda>(k, a). TotalLine a) final \<and>
     map fst final = map fst (aggregate rs) \<and>
     distinct (map fst final) \<and>
     set (map fst final) = result_key ` set rs \<and>
     (\<forall>k \<in> result_key ` set rs.
        \<exists>a a'. map_of (aggregate rs) k = Some a \<and> map_of final k = Some a' \<and>
          RequestsCount a = sum_list (map BenchmarkResult.RequestsCount (key_group k rs)) \<and>
          RequestsCount a \<noteq> 0 \<and>
          (\<forall>ph \<in> set phases.
             ph (AggregateTimings a) = sum_list (map (\<lambda>r. ph (TotalTimings r)) (key_group k rs)) \<and>
             ph (AggregateTimings a') =
               word_of_int (sint (ph (AggregateTimings a)) sdiv sint (RequestsCount a))) \<and>
          AggregateBenchmarkResult.URL a' = AggregateBenchmarkResult.URL a \<and>
          AggregateBenchmarkResult.Method a' = AggregateBenchmarkResult.Method a \<and>
          TotalTime a' = TotalTime a \<and> RequestsCount a' = RequestsCount a \<and>
          MinTimings a' = MinTimings a \<and> MaxTimings a' = MaxTimings a)"
proof
  assume run: "StartTest_aggregate rs = Inr (lines, final)"
  then obtain totals where
    fl: "finalize_loop (aggregate rs) = Inr (final, totals)"
    and lines: "lines = map ResultLine rs @ totals"
    by (auto simp: StartTest_aggregate_def split: sum.splits)
  note shape = finalize_loop_Inr [OF fl]
  have keys: "map fst final = map fst (aggregate rs)" using shape by simp
  have per_key: "\<exists>a a'. map_of (aggregate rs) k = Some a \<and> map_of final k = Some a' \<and>
          RequestsCount a = sum_list (map BenchmarkResult.RequestsCount (key_group k rs)) \<and>
          RequestsCount a \<noteq> 0 \<and>
          (\<forall>ph \<in> set phases.
             ph (AggregateTimings a) = sum_list (map (\<lambda>r. ph (TotalTimings r)) (key_group k rs)) \<and>
             ph (AggregateTimings a') =
               word_of_int (sint (ph (AggregateTimings a)) sdiv sint (RequestsCount a))) \<and>
          AggregateBenchmarkResult.URL a' = AggregateBenchmarkResult.URL a \<and>
          AggregateBenchmarkResult.Method a' = AggregateBenchmarkResult.Method a \<and>
          TotalTime a' = TotalTime a \<and> RequestsCount a' = RequestsCount a \<and>
          MinTimings a' = MinTimings a \<and> MaxTimings a' = MaxTimings a"
    if "k \<in> result_key ` set rs" for k
  proof -
    from that have "map_of (aggregate rs) k \<noteq> None"
      by (auto simp: aggregate_None_iff)
    then obtain a where a: "map_of (aggregate rs) k = Some a" by auto
    from finalize_loop_map_of [OF fl a] obtain a' where
      fa: "finalize_aggregate a = Inr a'" and a': "map_of final k = Some a'"
      by blast
    note sums = aggregate_sums [OF a]
    note ff = finalize_aggregate_fields [OF fa]
    show ?thesis
      by (intro exI [of _ a] exI [of _ a'] conjI ballI a a' ff(1-7))
        (use sums ff(8) in simp_all)
  qed
  show "lines = map ResultLine rs @ map (\<lambda>(k, a). TotalLine a) final \<and>
     map fst final = map fst (aggregate rs) \<and>
     distinct (map fst final) \<and>
     set (map fst final) = result_key ` set rs \<and>
     (\<forall>k \<in> result_key ` set rs.
        \<exists>a a'. map_of (aggregate rs) k = Some a \<and> map_of final k = Some a' \<and>
          RequestsCount a = sum_list (map BenchmarkResult.RequestsCount (key_group k rs)) \<and>
          RequestsCount a \<noteq> 0 \<and>
          (\<forall>ph \<in> set phases.
             ph (AggregateTimings a) = sum_list (map (\<lambda>r. ph (TotalTimings r)) (key_group k rs)) \<and>
             ph (AggregateTimings a') =
               word_of_int (sint (ph (AggregateTimings a)) sdiv sint (RequestsCount a))) \<and>
          AggregateBenchmarkResult.URL a' = AggregateBenchmarkResult.URL a \<and>
          AggregateBenchmarkResult.Method a' = AggregateBenchmarkResult.Method a \<and>
          TotalTime a' = TotalTime a \<and> RequestsCount a' = RequestsCount a \<and>
          MinTimings a' = MinTimings a \<and> MaxTimings a' = MaxTimings a)"
  proof (intro conjI ballI)
    show "lines = map ResultLine rs @ map (\<lambda>(k, a). TotalLine a) final"
      using lines shape by simp
    show "map fst final = map fst (aggregate rs)" by (rule keys)
    show "distinct (map fst final)" unfolding keys by (rule distinct_aggregate)
    show "set (map fst final) = result_key ` set rs" unfolding keys by (rule keys_aggregate)
  qed (rule per_key)
qed


theorem finalization_once_after_all_merges_witness:
  "\<exists>lines final a a'.
     StartTest_aggregate [example_first, example_first, example_first] = Inr (lines, final) \<and>
     lines = map ResultLine [example_first, example_first, example_first] @
       map (\<lambda>(k, a). TotalLine a) final \<and>
     map fst final = [''u_m''] \<and>
     ''u_m'' \<in> result_key ` set [example_first, example_first, example_first] \<and>
     map_of (aggregate [example_first, example_first, example_first]) ''u_m'' = Some a \<and>
     map_of final ''u_m'' = Some a' \<and>
     RequestsCount a = 6 \<and>
     AggregateTimings a =
       \<lparr>DNSLookup = 12, TCPConnection = 9, TLSHandshake = 24, ServerProcessing = 18\<rparr> \<and>
     TCPConnection (AggregateTimings a') =
       word_of_int (sint (TCPConnection (AggregateTimings a)) sdiv sint (RequestsCount a)) \<and>
     AggregateTimings a' =
       \<lparr>DNSLookup = 2, TCPConnection = 1, TLSHandshake = 4, ServerProcessing = 3\<rparr> \<and>
     MinTimings a' = MinTimings a \<and> MaxTimings a' = MaxTimings a"
proof -
  let ?rs = "[example_first, example_first, example_first]"
  obtain lines final where
    run: "StartTest_aggregate ?rs = Inr (lines, final)"
    and fv: "map fst final = [''u_m'']"
      "\<exists>a'. map_of final ''u_m'' = Some a' \<and> AggregateTimings a' =
         \<lparr>DNSLookup = 2, TCPConnection = 1, TLSHandshake = 4, ServerProcessing = 3\<rparr>"
    by (simp add: example_StartTest_aggregate)
  have k: "''u_m'' \<in> result_key ` set ?rs" by (simp add: example_keys)
  have ph: "TCPConnection \<in> set phases" by (simp add: phases_def)
  from finalization_once_after_all_merges [of ?rs lines final] run
  have lines: "lines = map ResultLine ?rs @ map (\<lambda>(k, a). TotalLine a) final"
    and per: "\<forall>k \<in> result_key ` set ?rs.
        \<exists>a a'. map_of (aggregate ?rs) k = Some a \<and> map_of final k = Some a' \<and>
          RequestsCount a = sum_list (map BenchmarkResult.RequestsCount (key_group k ?rs)) \<and>
          RequestsCount a \<noteq> 0 \<and>
          (\<forall>ph \<in> set phases.
             ph (AggregateTimings a) = sum_list (map (\<lambda>r. ph (TotalTimings r)) (key_group k ?rs)) \<and>
             ph (AggregateTimings a') =
               word_of_int (sint (ph (AggregateTimings a)) sdiv sint (RequestsCount a))) \<and>
          AggregateBenchmarkResult.URL a' = AggregateBenchmarkResult.URL a \<and>
          AggregateBenchmarkResult.Method a' = AggregateBenchmarkResult.Method a \<and>
          TotalTime a' = TotalTime a \<and> RequestsCount a' = RequestsCount a \<and>
          MinTimings a' = MinTimings a \<and> MaxTimings a' = MaxTimings a"
    by blast+
  from bspec [OF per k] obtain a a' where
    a: "map_of (aggregate ?rs) ''u_m'' = Some a"
    and a': "map_of final ''u_m'' = Some a'"
    and phs: "\<forall>ph \<in> set phases.
             ph (AggregateTimings a) =
               sum_list (map (\<lambda>r. ph (TotalTimings r)) (key_group ''u_m'' ?rs)) \<and>
             ph (AggregateTimings a') =
               word_of_int (sint (ph (AggregateTimings a)) sdiv sint (RequestsCount a))"
    and same: "MinTimings a' = MinTimings a" "MaxTimings a' = MaxTimings a"
    by blast
  from bspec [OF phs ph] have d: "TCPConnection (AggregateTimings a') =
       word_of_int (sint (TCPConnection (AggregateTimings a)) sdiv sint (RequestsCount a))"
    by blast
  from a have v: "RequestsCount a = 6"
    "AggregateTimings a =
       \<lparr>DNSLookup = 12, TCPConnection = 9, TLSHandshake = 24, ServerProcessing = 18\<rparr>"
    by (auto simp: example_aggregate_111)
  from fv(2) a' have v': "AggregateTimings a' =
       \<lparr>DNSLookup = 2, TCPConnection = 1, TLSHandshake = 4, ServerProcessing = 3\<rparr>"
    by auto
  show ?thesis
    by (intro exI [of _ lines] exI [of _ final] exI [of _ a] exI [of _ a'] conjI)
      (rule run lines fv(1) k a a' v d v' same)+
qed


lemma sum_list_ones:
  "\<forall>r \<in> set rs. f r = (1 :: go_int) \<Longrightarrow> sum_list (map f rs) = word_of_nat (length rs)"
  by (induction rs) simp_all

lemma aggregate_count_ones:
  assumes ones: "\<forall>r \<in> set rs. BenchmarkResult.RequestsCount r = 1"
    and len: "length rs < 2 ^ 63"
    and a: "map_of (aggregate rs) k = Some a"
  shows "sint (RequestsCount a) = int (length (key_group k rs))"
    and "1 \<le> length (key_group k rs)"
proof -
  have sub: "set (key_group k rs) \<subseteq> set rs" by (auto simp: key_group_def)
  have "RequestsCount a = sum_list (map BenchmarkResult.RequestsCount (key_group k rs))"
    using aggregate_sums [OF a] by simp
  also have "\<dots> = word_of_nat (length (key_group k rs))"
    using ones sub by (intro sum_list_ones) auto
  finally have c: "RequestsCount a = word_of_nat (length (key_group k rs))" .
  have "length (key_group k rs) \<le> length rs" by (simp add: key_group_def)
  with len have "length (key_group k rs) < 2 ^ 63" by linarith
  then show "sint (RequestsCount a) = int (length (key_group k rs))"
    by (simp add: c sint_word_of_nat_small)
  from a have "map_of (aggregate rs) k \<noteq> None" by simp
  then have "key_group k rs \<noteq> []"
    by (simp add: aggregate_None_iff key_group_empty_iff)
  then show "1 \<le> length (key_group k rs)"
    by (cases "key_group k rs") simp_all
qed

lemma aggregate_single: "aggregate [r] = [(result_key r, seed_aggregate r)]"
  by (simp add: aggregate_def merge_result_def)

text \<open>
  C10. Whatever the goroutines of a run of \<^verbatim>\<open>StartTest\<close> do and in whatever order
  their results arrive, every aggregate in the map after the receiving loop has a count
  of at least one, read as a signed 64-bit integer, and the last loop runs to its end
  without dividing by zero.
\<close>

theorem finalization_never_divides_by_zero:
  "StartTest_launch providerURL rateLimit totalRequests AccountKeys GetAccountInfo envs
     = Inr (us, h) \<longrightarrow>
   arrival_order us rs \<longrightarrow>
     (\<forall>(k, a) \<in> set (aggregate rs). 1 \<le> sint (RequestsCount a)) \<and>
     (\<exists>lines final. StartTest_aggregate rs = Inr (lines, final))"
proof (intro impI)
  assume l: "StartTest_launch providerURL rateLimit totalRequests AccountKeys GetAccountInfo envs
     = Inr (us, h)"
    and ao: "arrival_order us rs"
  have ones: "\<forall>r \<in> set rs. BenchmarkResult.RequestsCount r = 1"
    using StartTest_launch_sent(2) [OF l] arrival_order_set [OF ao] by auto
  have len: "length rs < 2 ^ 63"
    using StartTest_launch_sent(1) [OF l] arrival_order_length [OF ao] by simp
  have pos: "1 \<le> sint (RequestsCount a)" if "(k, a) \<in> set (aggregate rs)" for k a
  proof -
    from that have "map_of (aggregate rs) k = Some a"
      by (simp add: distinct_aggregate)
    from aggregate_count_ones [OF ones len this] show ?thesis by simp
  qed
  then have "\<forall>(k, a) \<in> set (aggregate rs). RequestsCount a \<noteq> 0" by fastforce
  from finalize_loop_ok [OF this] obtain final ls where
    "finalize_loop (aggregate rs) = Inr (final, ls)" by blast
  then have "\<exists>lines final. StartTest_aggregate rs = Inr (lines, final)"
    by (simp add: StartTest_aggregate_def)
  with pos show "(\<forall>(k, a) \<in> set (aggregate rs). 1 \<le> sint (RequestsCount a)) \<and>
     (\<exists>lines final. StartTest_aggregate rs = Inr (lines, final))"
    by blast
qed


theorem finalization_never_divides_by_zero_witness:
  "\<exists>us h r.
     StartTest_launch ''u'' 10 2 [''k''] ''getAccountInfo'' example_envs = Inr (us, h) \<and>
     arrival_order us [r] \<and>
     (\<exists>k a. aggregate [r] = [(k, a)] \<and> 1 \<le> sint (RequestsCount a)) \<and>
     (\<exists>lines final. StartTest_aggregate [r] = Inr (lines, final))"
proof -
  let ?r = "benchmarkMethod ''u'' ''getAccountInfo''
      (''k'', [(''encoding'', ''jsonParsed''), (''commitment'', ''finalized'')])
      (calls (example_envs 1))"
  obtain us h where
    l: "StartTest_launch ''u'' 10 2 [''k''] ''getAccountInfo'' example_envs = Inr (us, h)"
    and s: "sent_results us = [?r]"
    by (simp add: example_launch sent_results_def)
  have ao: "arrival_order us [?r]" by (simp add: arrival_order_def s)
  from finalization_never_divides_by_zero [of "''u''" 10 2 "[''k'']" "''getAccountInfo''"
      example_envs us h "[?r]"] l ao
  have pos: "\<forall>(k, a) \<in> set (aggregate [?r]). 1 \<le> sint (RequestsCount a)"
    and fin: "\<exists>lines final. StartTest_aggregate [?r] = Inr (lines, final)"
    by blast+
  from pos have "1 \<le> sint (RequestsCount (seed_aggregate ?r))"
    by (simp add: aggregate_single)
  then have "\<exists>k a. aggregate [?r] = [(k, a)] \<and> 1 \<le> sint (RequestsCount a)"
    by (simp add: aggregate_single)
  with l ao fin show ?thesis by blast
qed

end
